theory Spec2Isabelle
  imports Main "HOL-Library.Word" "HOL-Library.Sublist"
begin

section \<open>JavaScript values used by rss8.cjs\<close>

text \<open>
  A JavaScript string is a sequence of 16-bit code units; the regular expressions of the
  program have no \<open>u\<close> flag, so they work on code units. A \<open>Buffer\<close> is a sequence of bytes.
  \<open>js\<close> turns an ASCII literal of the source into its code units.
\<close>

type_synonym jschar = "16 word"
type_synonym jsstring = "jschar list"
type_synonym buffer = "8 word list"

definition js :: "string \<Rightarrow> jsstring" where
  "js s = map of_char s"

text \<open>
  The values that xml2js hands over for the text of an element: a string, or an object
  when the element carries attributes; \<open>arr[0]\<close> of an empty array is \<open>undefined\<close>.
\<close>

datatype jsval = Undefined | Null | Str jsstring | Object

datatype error = TypeError | Failure jsstring

fun truthy :: "jsval \<Rightarrow> bool" where
  "truthy Undefined = False"
| "truthy Null = False"
| "truthy (Str s) = (s \<noteq> [])"
| "truthy Object = True"

text \<open>
  The numbers that \<open>parseInt\<close> returns on a string of decimal digits: a non-negative
  integer that a double represents, or \<open>Infinity\<close>.
\<close>

datatype jsnum = Num nat | Infinity

section \<open>sanitizeXmlText\<close>

definition entities :: "jsstring list" where
  "entities = [js ''amp;'', js ''lt;'', js ''gt;'', js ''quot;'', js ''apos;'']"

text \<open>The negative lookahead \<open>(?!(amp;|lt;|gt;|quot;|apos;))\<close> fails where this holds.\<close>

definition followedByEntity :: "jsstring \<Rightarrow> bool" where
  "followedByEntity cs = list_ex (\<lambda>e. prefix e cs) entities"

text \<open>
  \<open>.replace(/&(?!(amp;|lt;|gt;|quot;|apos;))/g, '&amp;')\<close>: every \<open>&\<close> of the input is
  looked at once, left to right, with the lookahead reading the input.
\<close>

fun replaceAmp :: "jsstring \<Rightarrow> jsstring" where
  "replaceAmp [] = []"
| "replaceAmp (c # cs) =
     (if c = 0x26 \<and> \<not> followedByEntity cs then js ''&amp;'' else [c]) @ replaceAmp cs"

text \<open>\<open>.replace(/c/g, r)\<close> for a single character \<open>c\<close>.\<close>

definition replaceChar :: "jschar \<Rightarrow> jsstring \<Rightarrow> jsstring \<Rightarrow> jsstring" where
  "replaceChar c r s = concat (map (\<lambda>x. if x = c then r else [x]) s)"

text \<open>The valid XML characters: tab, line feed, carriage return, 0x20 to 0xD7FF and 0xE000 to 0xFFFD; the program deletes every other code unit.\<close>

definition validXmlChar :: "jschar \<Rightarrow> bool" where
  "validXmlChar c =
     (c = 0x09 \<or> c = 0x0A \<or> c = 0x0D \<or> (0x20 \<le> c \<and> c \<le> 0xD7FF) \<or> (0xE000 \<le> c \<and> c \<le> 0xFFFD))"

text \<open>White space and line terminators of ECMAScript, which \<open>String.prototype.trim\<close> removes.\<close>

definition isWhiteSpace :: "jschar \<Rightarrow> bool" where
  "isWhiteSpace c =
     (c = 0x09 \<or> c = 0x0A \<or> c = 0x0B \<or> c = 0x0C \<or> c = 0x0D \<or> c = 0x20 \<or> c = 0xA0
      \<or> c = 0x1680 \<or> (0x2000 \<le> c \<and> c \<le> 0x200A) \<or> c = 0x2028 \<or> c = 0x2029
      \<or> c = 0x202F \<or> c = 0x205F \<or> c = 0x3000 \<or> c = 0xFEFF)"

definition trim :: "jsstring \<Rightarrow> jsstring" where
  "trim s = rev (dropWhile isWhiteSpace (rev (dropWhile isWhiteSpace s)))"

text \<open>The five escaping replacements of \<open>sanitizeXmlText\<close>, in the order of the source.\<close>

definition escapeXml :: "jsstring \<Rightarrow> jsstring" where
  "escapeXml text =
     replaceChar 0x27 (js ''&apos;'')
       (replaceChar 0x22 (js ''&quot;'')
         (replaceChar 0x3E (js ''&gt;'')
           (replaceChar 0x3C (js ''&lt;'')
             (replaceAmp text))))"

text \<open>The body of \<open>sanitizeXmlText\<close> on a non-empty string.\<close>

definition sanitizeString :: "jsstring \<Rightarrow> jsstring" where
  "sanitizeString text = trim (filter validXmlChar (escapeXml text))"

text \<open>
  \<open>sanitizeXmlText\<close>: a falsy argument gives the empty string; on a truthy value that is
  not a string, \<open>text.replace\<close> is not a function and the call throws a TypeError.
\<close>

fun sanitizeXmlText :: "jsval \<Rightarrow> error + jsstring" where
  "sanitizeXmlText text =
     (if \<not> truthy text then Inr []
      else case text of Str s \<Rightarrow> Inr (sanitizeString s) | _ \<Rightarrow> Inl TypeError)"

section \<open>extractPostNumber\<close>

definition isDigit :: "jschar \<Rightarrow> bool" where
  "isDigit c = (0x30 \<le> c \<and> c \<le> 0x39)"

text \<open>
  \<open>link.match(/\/(\d+)$/)\<close>: the leftmost position with a slash, then one or more digits,
  then the end of the input. The result is the first group.
\<close>

fun matchPost :: "jsstring \<Rightarrow> jsstring option" where
  "matchPost [] = None"
| "matchPost (c # cs) =
     (if c = 0x2F \<and> cs \<noteq> [] \<and> list_all isDigit cs then Some cs else matchPost cs)"

definition decimalValue :: "jsstring \<Rightarrow> nat" where
  "decimalValue ds = foldl (\<lambda>acc d. 10 * acc + (unat d - 48)) 0 ds"

fun bitLength :: "nat \<Rightarrow> nat" where
  "bitLength n = (if n = 0 then 0 else Suc (bitLength (n div 2)))"

text \<open>
  The Number value of a non-negative integer: the nearest double, ties to the even
  mantissa, \<open>Infinity\<close> from \<open>2 ^ 1024\<close> on. Integers below \<open>2 ^ 53\<close> are exact.
\<close>

definition toNumber :: "nat \<Rightarrow> jsnum" where
  "toNumber n =
     (if n < 2 ^ 53 then Num n
      else let s = bitLength n - 53;
               q = n div 2 ^ s;
               r = n mod 2 ^ s;
               m = (if 2 ^ s < 2 * r \<or> (2 * r = 2 ^ s \<and> odd q) then q + 1 else q) * 2 ^ s
           in if 2 ^ 1024 \<le> m then Infinity else Num m)"

text \<open>
  \<open>parseInt\<close> on a non-empty string of decimal digits: the Number value of the integer
  that the digits denote. (ECMAScript lets an implementation replace the digits after
  the 20th significant one by zeros; the exact integer is taken here.)
\<close>

definition parseInt :: "jsstring \<Rightarrow> jsnum" where
  "parseInt ds = toNumber (decimalValue ds)"

text \<open>
  \<open>extractPostNumber\<close>: on a value that is not a string, \<open>link.match\<close> throws, the
  \<open>catch\<close> block logs and returns 0.
\<close>

fun extractPostNumber :: "jsval \<Rightarrow> jsnum" where
  "extractPostNumber (Str link) =
     (case matchPost link of Some ds \<Rightarrow> parseInt ds | None \<Rightarrow> Num 0)"
| "extractPostNumber _ = Num 0"

section \<open>detectMimeType and getExtFromMime\<close>

text \<open>The table \<open>signatures\<close>, in the order of \<open>Object.entries\<close>.\<close>

definition signatures :: "(jsstring \<times> buffer) list" where
  "signatures =
     [(js ''image/jpeg'', [0xFF, 0xD8, 0xFF]),
      (js ''image/png'', [0x89, 0x50, 0x4E, 0x47]),
      (js ''image/gif'', [0x47, 0x49, 0x46, 0x38]),
      (js ''image/webp'', [0x52, 0x49, 0x46, 0x46])]"

text \<open>
  \<open>signature.every((byte, index) => buffer[index] === byte)\<close>: beyond the end of the
  buffer \<open>buffer[index]\<close> is \<open>undefined\<close> and the comparison is false.
\<close>

fun everyByte :: "buffer \<Rightarrow> buffer \<Rightarrow> bool" where
  "everyByte [] buf = True"
| "everyByte (b # bs) [] = False"
| "everyByte (b # bs) (x # xs) = (x = b \<and> everyByte bs xs)"

fun detectLoop :: "(jsstring \<times> buffer) list \<Rightarrow> buffer \<Rightarrow> jsstring" where
  "detectLoop [] buf = js ''image/jpeg''"
| "detectLoop ((mimeType, signature) # rest) buf =
     (if everyByte signature buf then mimeType else detectLoop rest buf)"

definition detectMimeType :: "buffer \<Rightarrow> jsstring" where
  "detectMimeType buf = detectLoop signatures buf"

definition extensions :: "(jsstring \<times> jsstring) list" where
  "extensions =
     [(js ''image/jpeg'', js ''.jpg''),
      (js ''image/png'', js ''.png''),
      (js ''image/gif'', js ''.gif''),
      (js ''image/webp'', js ''.webp'')]"

definition getExtFromMime :: "jsstring \<Rightarrow> jsstring" where
  "getExtFromMime mimeType =
     (case map_of extensions mimeType of Some ext \<Rightarrow> ext | None \<Rightarrow> js ''.jpg'')"

section \<open>Helpers for the properties of sanitizeXmlText\<close>

text \<open>
  What the five replacements of \<open>escapeXml\<close> put in the place of one character \<open>c\<close>
  that is followed by \<open>cs\<close>.
\<close>

definition escapeOne :: "jschar \<Rightarrow> jsstring \<Rightarrow> jsstring" where
  "escapeOne c cs =
     (if c = 0x26 then (if followedByEntity cs then [c] else js ''&amp;'')
      else if c = 0x3C then js ''&lt;''
      else if c = 0x3E then js ''&gt;''
      else if c = 0x22 then js ''&quot;''
      else if c = 0x27 then js ''&apos;''
      else [c])"

definition isSpecial :: "jschar \<Rightarrow> bool" where
  "isSpecial c = (c = 0x26 \<or> c = 0x3C \<or> c = 0x3E \<or> c = 0x22 \<or> c = 0x27)"

text \<open>
  A text free of raw special characters: no \<open><\<close>, \<open>>\<close>, double or single quote, and
  every \<open>&\<close> starts one of the five entities.
\<close>

fun rawFree :: "jsstring \<Rightarrow> bool" where
  "rawFree [] = True"
| "rawFree (c # cs) =
     ((c = 0x26 \<longrightarrow> followedByEntity cs) \<and> c \<noteq> 0x3C \<and> c \<noteq> 0x3E \<and> c \<noteq> 0x22 \<and> c \<noteq> 0x27
      \<and> rawFree cs)"

definition doubleAmp :: jsstring where
  "doubleAmp = js ''&amp;amp;''"

section \<open>The environment of the program\<close>

text \<open>
  What the program observes of its effects: a call of the network (\<open>telegram_rss\<close> or
  \<open>https.get\<close>) with the index of the attempt, and a \<open>setTimeout\<close> wait in milliseconds.
\<close>

datatype event = Fetch nat | Wait nat

record imageData =
  img_path :: jsstring
  img_filename :: jsstring
  img_size :: nat
  img_mimeType :: jsstring
  img_relativePath :: jsstring

text \<open>
  The directory \<open>images/channel/postNumber\<close>: its files in the order of \<open>readdirSync\<close>,
  each with its content. A directory that does not exist yet and an empty one are both
  \<open>[]\<close>, since \<open>ensureDirectoryExists\<close> creates it before it is read. The entries are
  regular files, and the channel name is one path segment.
\<close>

type_synonym dir = "(jsstring \<times> buffer) list"
type_synonym files = "jsstring \<times> jsnum \<Rightarrow> dir"

text \<open>What xml2js returns for the feed: every child element is an array, absent children are absent.\<close>

record rawImage =
  image_url :: "jsval list option"

record rawItem =
  item_image :: "rawImage list option"
  item_pubDate :: "jsval list option"
  item_link :: "jsval list option"
  item_description :: "jsval list option"
  item_title :: "jsval list option"

record rawChannel =
  channel_title :: "jsval list option"
  channel_item :: "rawItem list option"

record rssElement =
  rss_channel :: "rawChannel list option"

record parsedData =
  data_rss :: "rssElement option"

text \<open>The objects that the program builds.\<close>

record enclosure =
  enc_url :: jsval
  enc_type :: jsstring
  enc_length :: jsstring

text \<open>An item as the callback of \<open>channel.item.map\<close> returns it; \<open>k_postNumber\<close> is its field \<open>_postNumber\<close>.\<close>

record keyedItem =
  k_title :: jsstring
  k_description :: jsstring
  k_pubDate :: jsstring
  k_link :: jsval
  k_guid :: jsval
  k_enclosure :: "enclosure list"
  k_postNumber :: jsnum

text \<open>An item after \<open>delete item._postNumber\<close>.\<close>

record outItem =
  out_title :: jsstring
  out_description :: jsstring
  out_pubDate :: jsstring
  out_link :: jsval
  out_guid :: jsval
  out_enclosure :: "enclosure list"

record outChannel =
  ch_title :: jsstring
  ch_link :: jsstring
  ch_description :: jsstring
  ch_pubDate :: jsstring
  ch_lastBuildDate :: jsstring
  ch_item :: "outItem list"

record cacheEntry =
  cache_xml :: jsstring
  cache_lastUpdate :: int

type_synonym cache = "jsstring \<rightharpoonup> cacheEntry"

text \<open>
  The library functions and the outside world, as parameters: \<open>__dirname\<close>, \<open>path.join\<close>,
  \<open>Number.prototype.toString\<close>, the time value of \<open>new Date(v)\<close> (\<open>None\<close> for NaN),
  \<open>Date.prototype.toUTCString\<close> of a valid date, the clock at the two calls of
  \<open>new Date()\<close>, the outcome of the k-th call of \<open>telegram_rss\<close>, \<open>parseStringPromise\<close>,
  the outcome of the k-th \<open>https.get\<close> for the i-th item (the body of a response with
  status 200 that was written to the disk, or the error of the rejected promise), and
  \<open>Builder.buildObject\<close>.
\<close>

record env =
  dirname :: jsstring
  pathJoin :: "jsstring list \<Rightarrow> jsstring"
  numberToString :: "jsnum \<Rightarrow> jsstring"
  dateParse :: "jsval \<Rightarrow> int option"
  utcString :: "int \<Rightarrow> jsstring"
  buildTime :: int
  updateTime :: int
  telegram_rss :: "nat \<Rightarrow> error + jsval"
  parseStringPromise :: "jsstring \<Rightarrow> error + parsedData"
  httpsGet :: "nat \<Rightarrow> nat \<Rightarrow> error + buffer"
  buildObject :: "outChannel \<Rightarrow> error + jsstring"

section \<open>downloadImage\<close>

text \<open>\<open>fs.writeFileSync\<close> in a directory: an existing file of that name is replaced.\<close>

fun writeFileSync :: "dir \<Rightarrow> jsstring \<Rightarrow> buffer \<Rightarrow> dir" where
  "writeFileSync [] name buf = [(name, buf)]"
| "writeFileSync ((n, b) # rest) name buf =
     (if n = name then (n, buf) # rest else (n, b) # writeFileSync rest name buf)"

text \<open>The handler of \<open>response.on('end')\<close>: the metadata of the downloaded image.\<close>

definition storedImage :: "env \<Rightarrow> jsstring \<Rightarrow> jsnum \<Rightarrow> buffer \<Rightarrow> imageData" where
  "storedImage e channel postNumber buf =
     (let postDir = pathJoin e [pathJoin e [pathJoin e [dirname e, js ''images''], channel],
                                numberToString e postNumber];
          mimeType = detectMimeType buf;
          ext = getExtFromMime mimeType;
          filename = js ''image'' @ ext
      in \<lparr>img_path = pathJoin e [postDir, filename],
          img_filename = filename,
          img_size = length buf,
          img_mimeType = mimeType,
          img_relativePath = pathJoin e [js ''images'', channel, numberToString e postNumber, filename]\<rparr>)"

text \<open>
  The retry loop of \<open>downloadImage\<close>, from \<open>attempt\<close> on. The result is what the call
  returns or throws (\<open>Inr None\<close>: the loop ends and the function returns \<open>undefined\<close>),
  the files afterwards and the network calls and waits in their order.
\<close>

function downloadLoop ::
  "env \<Rightarrow> (nat \<Rightarrow> error + buffer) \<Rightarrow> files \<Rightarrow> jsstring \<Rightarrow> jsnum \<Rightarrow> int \<Rightarrow> nat \<Rightarrow> nat
     \<Rightarrow> (error + imageData option) \<times> files \<times> event list" where
  "downloadLoop e get fs channel postNumber retries delay attempt =
     (if int attempt < retries then
        (case get attempt of
           Inr buf \<Rightarrow>
             (let d = storedImage e channel postNumber buf
              in (Inr (Some d),
                  fs((channel, postNumber) := writeFileSync (fs (channel, postNumber)) (img_filename d) buf),
                  [Fetch attempt]))
         | Inl err \<Rightarrow>
             (if int attempt = retries - 1 then (Inl err, fs, [Fetch attempt])
              else (case downloadLoop e get fs channel postNumber retries delay (attempt + 1) of
                      (r, fs', evs) \<Rightarrow> (r, fs', Fetch attempt # Wait (delay * 2 ^ attempt) # evs))))
      else (Inr None, fs, []))"
  by pat_completeness auto
termination
  by (relation "measure (\<lambda>(e, get, fs, channel, postNumber, retries, delay, attempt).
        nat (retries - int attempt))") auto

text \<open>
  \<open>downloadImage\<close>: \<open>get\<close> is the outcome of the k-th \<open>https.get(imageUrl)\<close> of this call.
\<close>

definition downloadImage ::
  "env \<Rightarrow> (nat \<Rightarrow> error + buffer) \<Rightarrow> files \<Rightarrow> jsstring \<Rightarrow> jsnum \<Rightarrow> int \<Rightarrow> nat
     \<Rightarrow> (error + imageData option) \<times> files \<times> event list" where
  "downloadImage e get fs channel postNumber retries delay =
     (let channelDir = pathJoin e [pathJoin e [dirname e, js ''images''], channel];
          postDir = pathJoin e [channelDir, numberToString e postNumber]
      in case fs (channel, postNumber) of
           (existingFile, buf) # others \<Rightarrow>
             (Inr (Some \<lparr>img_path = pathJoin e [postDir, existingFile],
                         img_filename = existingFile,
                         img_size = length buf,
                         img_mimeType = detectMimeType buf,
                         img_relativePath =
                           pathJoin e [js ''images'', channel, numberToString e postNumber, existingFile]\<rparr>),
              fs, [])
         | [] \<Rightarrow> downloadLoop e get fs channel postNumber retries delay 0)"

section \<open>safeTelegramRss\<close>

text \<open>
  The retry loop of \<open>safeTelegramRss\<close>, from \<open>attempt\<close> on; \<open>rss\<close> is the outcome of the
  k-th call of \<open>telegram_rss\<close>. When the loop ends without a call the function returns
  \<open>undefined\<close>.
\<close>

function safeLoop :: "(nat \<Rightarrow> error + jsval) \<Rightarrow> int \<Rightarrow> nat \<Rightarrow> nat \<Rightarrow> (error + jsval) \<times> event list" where
  "safeLoop rss retries delay attempt =
     (if int attempt < retries then
        (case rss attempt of
           Inr result \<Rightarrow> (Inr result, [Fetch attempt])
         | Inl err \<Rightarrow>
             (if int attempt = retries - 1 then (Inl err, [Fetch attempt])
              else (case safeLoop rss retries delay (attempt + 1) of
                      (r, evs) \<Rightarrow> (r, Fetch attempt # Wait (delay * 2 ^ attempt) # evs))))
      else (Inr Undefined, []))"
  by pat_completeness auto
termination
  by (relation "measure (\<lambda>(rss, retries, delay, attempt). nat (retries - int attempt))") auto

definition safeTelegramRss :: "(nat \<Rightarrow> error + jsval) \<Rightarrow> int \<Rightarrow> nat \<Rightarrow> (error + jsval) \<times> event list" where
  "safeTelegramRss rss retries delay = safeLoop rss retries delay 0"

section \<open>processRssFeed\<close>

text \<open>
  The replacement \<open>result.replace(/&(?![a-zA-Z0-9#]+;)/g, '&amp;')\<close> on the fetched
  document. The lookahead holds where a non-empty run of letters, digits and \<open>#\<close> is
  followed by a semicolon.
\<close>

definition isReferenceChar :: "jschar \<Rightarrow> bool" where
  "isReferenceChar c =
     ((0x61 \<le> c \<and> c \<le> 0x7A) \<or> (0x41 \<le> c \<and> c \<le> 0x5A) \<or> (0x30 \<le> c \<and> c \<le> 0x39) \<or> c = 0x23)"

definition followedByReference :: "jsstring \<Rightarrow> bool" where
  "followedByReference cs =
     (takeWhile isReferenceChar cs \<noteq> []
      \<and> (case dropWhile isReferenceChar cs of [] \<Rightarrow> False | c # rest \<Rightarrow> c = 0x3B))"

fun preSanitize :: "jsstring \<Rightarrow> jsstring" where
  "preSanitize [] = []"
| "preSanitize (c # cs) =
     (if c = 0x26 \<and> \<not> followedByReference cs then js ''&amp;'' else [c]) @ preSanitize cs"

text \<open>\<open>arr[0]\<close>.\<close>

fun at0 :: "jsval list \<Rightarrow> jsval" where
  "at0 [] = Undefined"
| "at0 (x # xs) = x"

text \<open>\<open>item.image ? item.image[0].url[0] : ""\<close>; reading a property of \<open>undefined\<close> throws.\<close>

definition itemImageUrl :: "rawItem \<Rightarrow> error + jsval" where
  "itemImageUrl it =
     (case item_image it of
        None \<Rightarrow> Inr (Str [])
      | Some [] \<Rightarrow> Inl TypeError
      | Some (img # imgs) \<Rightarrow>
          (case image_url img of None \<Rightarrow> Inl TypeError | Some us \<Rightarrow> Inr (at0 us)))"

text \<open>\<open>new Date(v).toUTCString()\<close>: the string \<open>Invalid Date\<close> when the time value is NaN.\<close>

definition toUTCString :: "env \<Rightarrow> jsval \<Rightarrow> jsstring" where
  "toUTCString e v = (case dateParse e v of None \<Rightarrow> js ''Invalid Date'' | Some t \<Rightarrow> utcString e t)"

text \<open>
  \<open>item.pubDate && item.pubDate[0] ? new Date(item.pubDate[0]).toUTCString() : latestPubDate\<close>
\<close>

definition itemPubDate :: "env \<Rightarrow> jsstring \<Rightarrow> rawItem \<Rightarrow> jsstring" where
  "itemPubDate e latestPubDate it =
     (case item_pubDate it of
        None \<Rightarrow> latestPubDate
      | Some ds \<Rightarrow> if truthy (at0 ds) then toUTCString e (at0 ds) else latestPubDate)"

text \<open>\<open>item.description ? item.description[0] : item.title[0]\<close>\<close>

definition itemText :: "rawItem \<Rightarrow> error + jsval" where
  "itemText it =
     (case item_description it of
        Some ds \<Rightarrow> Inr (at0 ds)
      | None \<Rightarrow> (case item_title it of None \<Rightarrow> Inl TypeError | Some ts \<Rightarrow> Inr (at0 ts)))"

definition fallbackEnclosure :: "jsval \<Rightarrow> enclosure" where
  "fallbackEnclosure imageUrl =
     \<lparr>enc_url = imageUrl, enc_type = js ''image/jpeg'', enc_length = js ''0''\<rparr>"

text \<open>
  The enclosure of the item with index \<open>i\<close>. The callbacks of \<open>channel.item.map\<close> run
  up to their first network call before any download has finished, so every item reads
  the image directory as it is at the start. An exception in the \<open>try\<close> block (a failed
  download, or \<open>undefined\<close> for \<open>imageData\<close>) gives the fallback.
\<close>

definition itemEnclosure ::
  "env \<Rightarrow> files \<Rightarrow> jsstring \<Rightarrow> jsstring \<Rightarrow> nat \<Rightarrow> jsval \<Rightarrow> jsnum \<Rightarrow> enclosure list" where
  "itemEnclosure e fs telegram_channel serverUrl i imageUrl postNumber =
     (if truthy imageUrl then
        (case fst (downloadImage e (httpsGet e i) fs telegram_channel postNumber 3 2000) of
           Inr (Some imageData) \<Rightarrow>
             [\<lparr>enc_url = Str (serverUrl @ js ''/'' @ img_relativePath imageData),
               enc_type = img_mimeType imageData,
               enc_length = numberToString e (Num (img_size imageData))\<rparr>]
         | Inr None \<Rightarrow> [fallbackEnclosure imageUrl]
         | Inl err \<Rightarrow> [fallbackEnclosure imageUrl])
      else [])"

text \<open>The callback of \<open>channel.item.map\<close> on the item with index \<open>i\<close>.\<close>

definition processItem ::
  "env \<Rightarrow> files \<Rightarrow> jsstring \<Rightarrow> jsstring \<Rightarrow> jsstring \<Rightarrow> nat \<Rightarrow> rawItem \<Rightarrow> error + keyedItem" where
  "processItem e fs telegram_channel serverUrl latestPubDate i it =
     (case itemImageUrl it of
        Inl err \<Rightarrow> Inl err
      | Inr imageUrl \<Rightarrow>
          (let pubDate = itemPubDate e latestPubDate it
           in case item_link it of
                None \<Rightarrow> Inl TypeError
              | Some ls \<Rightarrow>
                  (let postLink = at0 ls;
                       postNumber = extractPostNumber postLink
                   in case itemText it of
                        Inl err \<Rightarrow> Inl err
                      | Inr text \<Rightarrow>
                          (case sanitizeXmlText text of
                             Inl err \<Rightarrow> Inl err
                           | Inr descriptionText \<Rightarrow>
                               Inr \<lparr>k_title = js ''[Photo]'',
                                    k_description = descriptionText,
                                    k_pubDate = pubDate,
                                    k_link = postLink,
                                    k_guid = postLink,
                                    k_enclosure =
                                      itemEnclosure e fs telegram_channel serverUrl i imageUrl postNumber,
                                    k_postNumber = postNumber\<rparr>))))"

text \<open>\<open>Promise.all(channel.item.map(...))\<close>: all the items, or the first exception.\<close>

fun mapItems :: "(nat \<Rightarrow> rawItem \<Rightarrow> error + keyedItem) \<Rightarrow> nat \<Rightarrow> rawItem list \<Rightarrow> error + keyedItem list" where
  "mapItems f i [] = Inr []"
| "mapItems f i (it # its) =
     (case f i it of
        Inl err \<Rightarrow> Inl err
      | Inr x \<Rightarrow> (case mapItems f (i + 1) its of Inl err \<Rightarrow> Inl err | Inr xs \<Rightarrow> Inr (x # xs)))"

text \<open>
  The sign of the difference \<open>x - y\<close> of two Numbers; \<open>Infinity - Infinity\<close> is NaN.
\<close>

datatype sign = Negative | Zero | Positive | NaN

fun subtractSign :: "jsnum \<Rightarrow> jsnum \<Rightarrow> sign" where
  "subtractSign (Num x) (Num y) = (if x < y then Negative else if x = y then Zero else Positive)"
| "subtractSign (Num x) Infinity = Negative"
| "subtractSign Infinity (Num y) = Positive"
| "subtractSign Infinity Infinity = NaN"

text \<open>The comparator \<open>(a, b) => b._postNumber - a._postNumber\<close>.\<close>

definition compareItems :: "keyedItem \<Rightarrow> keyedItem \<Rightarrow> sign" where
  "compareItems a b = subtractSign (k_postNumber b) (k_postNumber a)"

text \<open>
  \<open>items.sort(comparator)\<close>. \<open>Array.prototype.sort\<close> is stable, and it places \<open>a\<close>
  after \<open>b\<close> only where the comparator is positive (NaN counts as zero); with a consistent
  comparator these two fix the result, which an insertion sort computes.
\<close>

fun insertItem :: "keyedItem \<Rightarrow> keyedItem list \<Rightarrow> keyedItem list" where
  "insertItem x [] = [x]"
| "insertItem x (y # ys) =
     (if compareItems x y = Positive then y # insertItem x ys else x # y # ys)"

definition sortItems :: "keyedItem list \<Rightarrow> keyedItem list" where
  "sortItems xs = foldr insertItem xs []"

definition stripPostNumber :: "keyedItem \<Rightarrow> outItem" where
  "stripPostNumber x =
     \<lparr>out_title = k_title x, out_description = k_description x, out_pubDate = k_pubDate x,
      out_link = k_link x, out_guid = k_guid x, out_enclosure = k_enclosure x\<rparr>"

text \<open>The order of the ordering keys.\<close>

fun keyLe :: "jsnum \<Rightarrow> jsnum \<Rightarrow> bool" where
  "keyLe (Num x) (Num y) = (x \<le> y)"
| "keyLe x Infinity = True"
| "keyLe Infinity (Num y) = False"

text \<open>
  The channel object that is handed to the builder: \<open>processRssFeed\<close> from
  \<open>parsedData.rss.channel[0]\<close> to \<open>channel.item = items\<close>.
\<close>

definition buildChannel ::
  "env \<Rightarrow> files \<Rightarrow> jsstring \<Rightarrow> jsstring \<Rightarrow> parsedData \<Rightarrow> error + outChannel" where
  "buildChannel e fs telegram_channel serverUrl parsed =
     (case data_rss parsed of
        None \<Rightarrow> Inl TypeError
      | Some r \<Rightarrow>
     (case rss_channel r of
        None \<Rightarrow> Inl TypeError
      | Some [] \<Rightarrow> Inl TypeError
      | Some (ch # chs) \<Rightarrow>
     (case channel_title ch of
        None \<Rightarrow> Inl TypeError
      | Some ts \<Rightarrow>
     (case sanitizeXmlText (at0 ts) of
        Inl err \<Rightarrow> Inl err
      | Inr t \<Rightarrow>
     (let realChannelTitle = (if t \<noteq> [] then t else js ''Telegram Channel'');
          latestPubDate = utcString e (buildTime e)
      in case channel_item ch of
           None \<Rightarrow> Inl TypeError
         | Some its \<Rightarrow>
        (case mapItems (processItem e fs telegram_channel serverUrl latestPubDate) 0 its of
           Inl err \<Rightarrow> Inl err
         | Inr items \<Rightarrow>
             Inr \<lparr>ch_title = realChannelTitle,
                  ch_link = js ''https://t.me/'' @ telegram_channel,
                  ch_description = [],
                  ch_pubDate = latestPubDate,
                  ch_lastBuildDate = latestPubDate,
                  ch_item = map stripPostNumber (sortItems items)\<rparr>))))))"

text \<open>
  \<open>processRssFeed\<close>: what it returns or throws, and the cache afterwards. The files that
  the downloads write are an effect of \<open>downloadImage\<close> and are not followed further.
\<close>

definition processRssFeed ::
  "env \<Rightarrow> files \<Rightarrow> cache \<Rightarrow> jsstring \<Rightarrow> jsstring \<Rightarrow> (error + jsstring) \<times> cache" where
  "processRssFeed e fs rssCache telegram_channel serverUrl =
     (case fst (safeTelegramRss (telegram_rss e) 3 2000) of
        Inl err \<Rightarrow> (Inl err, rssCache)
      | Inr (Str result) \<Rightarrow>
          (case parseStringPromise e (preSanitize result) of
             Inl err \<Rightarrow> (Inl err, rssCache)
           | Inr parsedData \<Rightarrow>
               (case buildChannel e fs telegram_channel serverUrl parsedData of
                  Inl err \<Rightarrow> (Inl err, rssCache)
                | Inr channel \<Rightarrow>
                    (case buildObject e channel of
                       Inl err \<Rightarrow> (Inl err, rssCache)
                     | Inr newXml \<Rightarrow>
                         (Inr newXml,
                          rssCache(telegram_channel \<mapsto>
                            \<lparr>cache_xml = newXml, cache_lastUpdate = updateTime e\<rparr>)))))
      | Inr other \<Rightarrow> (Inl TypeError, rssCache))"

section \<open>Notions used in the properties\<close>

text \<open>
  The network calls and waits of a retry loop that starts at attempt \<open>a\<close> and makes its
  last call at attempt \<open>k\<close>: after each earlier call a wait of \<open>delay * 2 ^ attempt\<close>
  milliseconds.
\<close>

definition retryTrace :: "nat \<Rightarrow> nat \<Rightarrow> nat \<Rightarrow> event list" where
  "retryTrace delay a k = concat (map (\<lambda>j. [Fetch j, Wait (delay * 2 ^ j)]) [a..<k]) @ [Fetch k]"

text \<open>The ordering key of an item of the output, which no longer has \<open>_postNumber\<close>.\<close>

definition outKey :: "outItem \<Rightarrow> jsnum" where
  "outKey x = extractPostNumber (out_link x)"

section \<open>A sample run\<close>

text \<open>
  An environment for concrete runs: \<open>path.join\<close> on plain segments, decimal numerals,
  a feed of three posts for the channel \<open>durov\<close>, a first fetch of the feed that fails, an
  image download that times out at every attempt (post 0) and one that delivers a PNG
  file (post 2).
\<close>

fun joinSlash :: "jsstring list \<Rightarrow> jsstring" where
  "joinSlash [] = []"
| "joinSlash [p] = p"
| "joinSlash (p # q # ps) = p @ js ''/'' @ joinSlash (q # ps)"

fun decimalString :: "nat \<Rightarrow> jsstring" where
  "decimalString n =
     (if n < 10 then [of_nat (48 + n)] else decimalString (n div 10) @ [of_nat (48 + n mod 10)])"

fun sampleNumberToString :: "jsnum \<Rightarrow> jsstring" where
  "sampleNumberToString (Num n) = decimalString n"
| "sampleNumberToString Infinity = js ''Infinity''"

definition sampleItems :: "rawItem list" where
  "sampleItems =
     [\<lparr>item_image = Some [\<lparr>image_url = Some [Str (js ''https://cdn.example/a.jpg'')]\<rparr>],
       item_pubDate = Some [Str (js ''Mon, 03 Nov 2025 10:00:00 GMT'')],
       item_link = Some [Str (js ''https://t.me/durov/10'')],
       item_description = Some [Str (js ''Tom & Jerry'')],
       item_title = Some [Str (js ''A'')]\<rparr>,
      \<lparr>item_image = None,
       item_pubDate = Some [Str (js ''not a date'')],
       item_link = Some [Str (js ''https://t.me/durov/12'')],
       item_description = None,
       item_title = Some [Str (js ''B'')]\<rparr>,
      \<lparr>item_image = Some [\<lparr>image_url = Some [Str (js ''https://cdn.example/c.png'')]\<rparr>],
       item_pubDate = None,
       item_link = Some [Str (js ''https://t.me/durov/10'')],
       item_description = Some [Str (js ''C'')],
       item_title = None\<rparr>]"

definition sampleParsed :: parsedData where
  "sampleParsed =
     \<lparr>data_rss = Some \<lparr>rss_channel =
        Some [\<lparr>channel_title = Some [Str (js ''Durov'')], channel_item = Some sampleItems\<rparr>]\<rparr>\<rparr>"

definition sampleTimeout :: error where
  "sampleTimeout = Failure (js ''Request timeout'')"

definition samplePng :: buffer where
  "samplePng = [0x89, 0x50, 0x4E, 0x47, 0x0D]"

definition sampleGet :: "nat \<Rightarrow> nat \<Rightarrow> error + buffer" where
  "sampleGet i k = (if i = 2 then Inr samplePng else Inl sampleTimeout)"

definition sampleEnv :: env where
  "sampleEnv =
     \<lparr>dirname = js ''/app'',
      pathJoin = joinSlash,
      numberToString = sampleNumberToString,
      dateParse = (\<lambda>v. if v = Str (js ''Mon, 03 Nov 2025 10:00:00 GMT'') then Some 1762164000000 else None),
      utcString = (\<lambda>t. if t = 1762164000000 then js ''Mon, 03 Nov 2025 10:00:00 GMT''
                        else js ''Mon, 03 Nov 2025 12:00:00 GMT''),
      buildTime = 1762171200000,
      updateTime = 1762171200250,
      telegram_rss = (\<lambda>k. if k = 0 then Inl sampleTimeout else Inr (Str (js ''<rss/>''))),
      parseStringPromise = (\<lambda>s. Inr sampleParsed),
      httpsGet = sampleGet,
      buildObject = (\<lambda>c. Inr (js ''<rss>'' @ concat (map out_description (ch_item c)) @ js ''</rss>''))\<rparr>"

definition sampleFiles :: files where
  "sampleFiles = (\<lambda>k. [])"

text \<open>A download whose first attempt fails and whose second attempt delivers a PNG file.\<close>

definition sampleRetryGet :: "nat \<Rightarrow> error + buffer" where
  "sampleRetryGet k = (if k = 0 then Inl sampleTimeout else Inr samplePng)"

text \<open>The metadata of the PNG file stored for post \<open>n\<close> of the sample channel.\<close>

definition sampleImage :: "nat \<Rightarrow> imageData" where
  "sampleImage n =
     \<lparr>img_path = js ''/app/images/durov/'' @ decimalString n @ js ''/image.png'',
      img_filename = js ''image.png'',
      img_size = 5, img_mimeType = js ''image/png'',
      img_relativePath = js ''images/durov/'' @ decimalString n @ js ''/image.png''\<rparr>"

text \<open>The channel object that the sample run hands to the builder.\<close>

definition sampleChannel :: outChannel where
  "sampleChannel =
     \<lparr>ch_title = js ''Durov'',
      ch_link = js ''https://t.me/durov'',
      ch_description = [],
      ch_pubDate = js ''Mon, 03 Nov 2025 12:00:00 GMT'',
      ch_lastBuildDate = js ''Mon, 03 Nov 2025 12:00:00 GMT'',
      ch_item =
        [\<lparr>out_title = js ''[Photo]'', out_description = js ''B'',
          out_pubDate = js ''Invalid Date'',
          out_link = Str (js ''https://t.me/durov/12''), out_guid = Str (js ''https://t.me/durov/12''),
          out_enclosure = []\<rparr>,
         \<lparr>out_title = js ''[Photo]'', out_description = js ''Tom &amp; Jerry'',
          out_pubDate = js ''Mon, 03 Nov 2025 10:00:00 GMT'',
          out_link = Str (js ''https://t.me/durov/10''), out_guid = Str (js ''https://t.me/durov/10''),
          out_enclosure = [\<lparr>enc_url = Str (js ''https://cdn.example/a.jpg''),
             enc_type = js ''image/jpeg'', enc_length = js ''0''\<rparr>]\<rparr>,
         \<lparr>out_title = js ''[Photo]'', out_description = js ''C'',
          out_pubDate = js ''Mon, 03 Nov 2025 12:00:00 GMT'',
          out_link = Str (js ''https://t.me/durov/10''), out_guid = Str (js ''https://t.me/durov/10''),
          out_enclosure = [\<lparr>enc_url = Str (js ''http://serverIP/images/durov/10/image.png''),
             enc_type = js ''image/png'', enc_length = js ''5''\<rparr>]\<rparr>]\<rparr>"

text \<open>A cache that holds an earlier document of the sample channel.\<close>

definition sampleCache :: cache where
  "sampleCache = [js ''durov'' \<mapsto> \<lparr>cache_xml = js ''<old/>'', cache_lastUpdate = 1762170000000\<rparr>]"

section \<open>Properties of detectMimeType\<close>

lemma everyByte_prefix: "everyByte sig buf = prefix sig buf"
  by (induction sig buf rule: everyByte.induct) auto

text \<open>
  Claim C8. A buffer that begins with FF D8 FF is classified as image/jpeg, one that begins
  with 89 50 4E 47 as image/png, with 47 49 46 38 as image/gif, with 52 49 46 46 as
  image/webp, and a buffer that begins with none of the four signatures as image/jpeg.
\<close>

theorem detectMimeType_signatures:
  "(prefix [0xFF, 0xD8, 0xFF] buf \<longrightarrow> detectMimeType buf = js ''image/jpeg'')
   \<and> (prefix [0x89, 0x50, 0x4E, 0x47] buf \<longrightarrow> detectMimeType buf = js ''image/png'')
   \<and> (prefix [0x47, 0x49, 0x46, 0x38] buf \<longrightarrow> detectMimeType buf = js ''image/gif'')
   \<and> (prefix [0x52, 0x49, 0x46, 0x46] buf \<longrightarrow> detectMimeType buf = js ''image/webp'')
   \<and> (\<not> prefix [0xFF, 0xD8, 0xFF] buf \<and> \<not> prefix [0x89, 0x50, 0x4E, 0x47] buf
        \<and> \<not> prefix [0x47, 0x49, 0x46, 0x38] buf \<and> \<not> prefix [0x52, 0x49, 0x46, 0x46] buf
      \<longrightarrow> detectMimeType buf = js ''image/jpeg'')"
  by (auto simp: detectMimeType_def signatures_def everyByte_prefix prefix_def)

theorem detectMimeType_signatures_witness:
  "detectMimeType [0xFF, 0xD8, 0xFF, 0xE0] = js ''image/jpeg''
   \<and> detectMimeType [0x89, 0x50, 0x4E, 0x47, 0x0D] = js ''image/png''
   \<and> detectMimeType [0x47, 0x49, 0x46, 0x38, 0x39] = js ''image/gif''
   \<and> detectMimeType [0x52, 0x49, 0x46, 0x46] = js ''image/webp''
   \<and> detectMimeType [0x25, 0x50] = js ''image/jpeg''"
  using detectMimeType_signatures [of "[0xFF, 0xD8, 0xFF, 0xE0]"]
    detectMimeType_signatures [of "[0x89, 0x50, 0x4E, 0x47, 0x0D]"]
    detectMimeType_signatures [of "[0x47, 0x49, 0x46, 0x38, 0x39]"]
    detectMimeType_signatures [of "[0x52, 0x49, 0x46, 0x46]"]
    detectMimeType_signatures [of "[0x25, 0x50]"]
  by simp

section \<open>Properties of extractPostNumber\<close>

lemma slash_not_digit: "\<not> isDigit 0x2F"
  by (simp add: isDigit_def)

lemma matchPost_suffix:
  "ds \<noteq> [] \<Longrightarrow> list_all isDigit ds \<Longrightarrow> matchPost (p @ 0x2F # ds) = Some ds"
  by (induction p) (auto simp: slash_not_digit)

lemma matchPost_digits: "matchPost s = Some ds \<Longrightarrow> s \<noteq> [] \<and> isDigit (last s)"
  by (induction s) (auto split: if_splits simp: list_all_iff)

lemma matchPost_none: "s = [] \<or> \<not> isDigit (last s) \<Longrightarrow> matchPost s = None"
  using matchPost_digits by (cases "matchPost s") auto

text \<open>
  Claim C9, as the code has it. A link that ends in a slash followed by digits whose
  decimal value is below \<open>2 ^ 53\<close> has that value as its ordering key, and a link that
  does not end in a digit has the ordering key 0. (From \<open>2 ^ 53\<close> on, \<open>parseInt\<close> gives
  the nearest double, which need not be the value of the digits.)
\<close>

theorem extractPostNumber_value:
  "(ds \<noteq> [] \<and> list_all isDigit ds \<and> decimalValue ds < 2 ^ 53 \<longrightarrow>
      extractPostNumber (Str (p @ 0x2F # ds)) = Num (decimalValue ds))
   \<and> (link = [] \<or> \<not> isDigit (last link) \<longrightarrow> extractPostNumber (Str link) = Num 0)"
  by (auto simp: matchPost_suffix matchPost_none parseInt_def toNumber_def)

theorem extractPostNumber_value_witness:
  "extractPostNumber (Str (js ''https://t.me/durov/12345'')) = Num 12345
   \<and> extractPostNumber (Str (js ''https://t.me/durov'')) = Num 0"
  using extractPostNumber_value [of "js ''12345''" "js ''https://t.me/durov''" "js ''https://t.me/durov''"]
  by (simp add: js_def isDigit_def decimalValue_def)

text \<open>
  The claim as the specification words it, for every string of digits, fails on a link
  whose digits are \<open>2 ^ 53 + 1\<close>: the ordering key is \<open>2 ^ 53\<close>.
\<close>

theorem extractPostNumber_large_counterexample:
  "extractPostNumber (Str (js ''https://t.me/durov/9007199254740993'')) = Num 9007199254740992
   \<and> decimalValue (js ''9007199254740993'') = 9007199254740993"
  by (simp add: js_def isDigit_def decimalValue_def parseInt_def toNumber_def Let_def)

section \<open>Properties of sanitizeXmlText\<close>

text \<open>
  Claim C10. On every falsy argument (\<open>undefined\<close>, \<open>null\<close>, the empty string) the
  sanitizer returns the empty string and does not throw.
\<close>

theorem sanitizeXmlText_falsy:
  "\<not> truthy text \<Longrightarrow> sanitizeXmlText text = Inr []"
  by simp

theorem sanitizeXmlText_falsy_witness:
  "sanitizeXmlText Undefined = Inr [] \<and> sanitizeXmlText Null = Inr []
   \<and> sanitizeXmlText (Str []) = Inr []"
  using sanitizeXmlText_falsy [of Undefined] sanitizeXmlText_falsy [of Null]
    sanitizeXmlText_falsy [of "Str []"]
  by simp

section \<open>Idempotence of the sanitizer and the entities it keeps\<close>

lemma replaceChar_Nil [simp]: "replaceChar c r [] = []"
  by (simp add: replaceChar_def)

lemma replaceChar_Cons [simp]:
  "replaceChar c r (x # xs) = (if x = c then r else [x]) @ replaceChar c r xs"
  by (simp add: replaceChar_def)

lemma replaceChar_append [simp]:
  "replaceChar c r (u @ v) = replaceChar c r u @ replaceChar c r v"
  by (simp add: replaceChar_def)

lemma escapeXml_Nil [simp]: "escapeXml [] = []"
  by (simp add: escapeXml_def)

lemma escapeXml_Cons: "escapeXml (c # cs) = escapeOne c cs @ escapeXml cs"
  by (simp add: escapeXml_def escapeOne_def js_def)

lemma entity_cases:
  "e \<in> set entities \<Longrightarrow> e = js ''amp;'' \<or> e = js ''lt;'' \<or> e = js ''gt;'' \<or> e = js ''quot;'' \<or> e = js ''apos;''"
  by (auto simp: entities_def)

lemma entity_plain: "e \<in> set entities \<Longrightarrow> c \<in> set e \<Longrightarrow> \<not> isSpecial c \<and> validXmlChar c \<and> \<not> isWhiteSpace c"
  by (auto dest!: entity_cases simp: js_def isSpecial_def validXmlChar_def isWhiteSpace_def)

lemma escapeOne_plain: "\<not> isSpecial c \<Longrightarrow> escapeOne c cs = [c]"
  by (simp add: escapeOne_def isSpecial_def)

lemma escapeOne_special: "isSpecial c \<Longrightarrow> \<exists>t. escapeOne c cs = 0x26 # t"
  by (auto simp: escapeOne_def isSpecial_def js_def)

lemma plain_prefix:
  "\<forall>c\<in>set w. \<not> isSpecial c \<Longrightarrow> prefix w (escapeXml cs) = prefix w cs"
proof (induction w arbitrary: cs)
  case Nil
  then show ?case by simp
next
  case (Cons a w)
  have a: "\<not> isSpecial a" and w: "\<forall>c\<in>set w. \<not> isSpecial c" using Cons.prems by auto
  show ?case
  proof (cases cs)
    case Nil
    then show ?thesis by simp
  next
    case (Cons c cs')
    show ?thesis
    proof (cases "isSpecial c")
      case True
      then obtain t where "escapeOne c cs' = 0x26 # t" using escapeOne_special by blast
      moreover have "a \<noteq> 0x26" "a \<noteq> c" using a True by (auto simp: isSpecial_def)
      ultimately show ?thesis using Cons by (simp add: escapeXml_Cons)
    next
      case False
      then show ?thesis using Cons Cons.IH [OF w, of cs'] by (simp add: escapeXml_Cons escapeOne_plain)
    qed
  qed
qed

lemma followedByEntity_iff: "followedByEntity cs = (\<exists>e\<in>set entities. prefix e cs)"
  by (simp add: followedByEntity_def list_ex_iff)

lemma followedByEntity_escapeXml: "followedByEntity (escapeXml cs) = followedByEntity cs"
  using plain_prefix entity_plain by (auto simp: followedByEntity_iff)

lemma escapeXml_plain_append:
  "\<forall>c\<in>set w. \<not> isSpecial c \<Longrightarrow> escapeXml (w @ v) = w @ escapeXml v"
  by (induction w) (auto simp: escapeXml_Cons escapeOne_plain)

lemma rawFree_escapeXml_id: "rawFree s \<Longrightarrow> escapeXml s = s"
  by (induction s) (auto simp: escapeXml_Cons escapeOne_def)

lemma followedByEntity_entity_append: "e \<in> set entities \<Longrightarrow> followedByEntity (e @ t)"
  unfolding followedByEntity_iff by (rule bexI [of _ e]) simp_all

lemma rawFree_plain_append: "\<forall>c\<in>set w. \<not> isSpecial c \<Longrightarrow> rawFree (w @ t) = rawFree t"
  by (induction w) (auto simp: isSpecial_def)

lemma rawFree_escapeOne: "rawFree Y \<Longrightarrow> (followedByEntity cs \<longrightarrow> followedByEntity Y) \<Longrightarrow> rawFree (escapeOne c cs @ Y)"
  by (auto simp: escapeOne_def js_def followedByEntity_iff entities_def)

lemma rawFree_escapeXml: "rawFree (escapeXml s)"
  by (induction s) (auto simp: escapeXml_Cons followedByEntity_escapeXml intro!: rawFree_escapeOne)

lemma prefix_filter_entity:
  "e \<in> set entities \<Longrightarrow> prefix e cs \<Longrightarrow> prefix e (filter validXmlChar cs)"
proof -
  assume e: "e \<in> set entities" and "prefix e cs"
  then obtain t where "cs = e @ t" by (auto simp: prefix_def)
  moreover have "filter validXmlChar e = e" using entity_plain [OF e] by (simp add: filter_id_conv)
  ultimately show ?thesis by simp
qed

lemma followedByEntity_filter:
  "followedByEntity cs \<Longrightarrow> followedByEntity (filter validXmlChar cs)"
  using prefix_filter_entity by (auto simp: followedByEntity_iff)

lemma rawFree_filter: "rawFree s \<Longrightarrow> rawFree (filter validXmlChar s)"
  by (induction s) (auto simp: followedByEntity_filter)

lemma rawFree_dropWhile: "rawFree s \<Longrightarrow> rawFree (dropWhile P s)"
  by (induction s) auto

lemma prefix_entity_white:
  assumes e: "e \<in> set entities" and w: "\<forall>c\<in>set w. isWhiteSpace c" and p: "prefix e (p @ w)"
  shows "prefix e p"
proof -
  from p have "prefix e p \<or> (\<exists>us. e = p @ us \<and> prefix us w)"
    by (simp add: prefix_append)
  then show ?thesis
  proof
    assume "prefix e p"
    then show ?thesis .
  next
    assume "\<exists>us. e = p @ us \<and> prefix us w"
    then obtain us where us: "e = p @ us" "prefix us w" by blast
    show ?thesis
    proof (cases us)
      case Nil
      then show ?thesis using us by simp
    next
      case (Cons a t)
      then have "a \<in> set e" "a \<in> set w" using us by (auto simp: prefix_def)
      then show ?thesis using entity_plain [OF e] w by blast
    qed
  qed
qed

lemma rawFree_strip_white:
  "rawFree (p @ w) \<Longrightarrow> \<forall>c\<in>set w. isWhiteSpace c \<Longrightarrow> rawFree p"
proof (induction p)
  case Nil
  then show ?case by simp
next
  case (Cons c p)
  then show ?case using prefix_entity_white [of _ w p] by (auto simp: followedByEntity_iff)
qed

lemma dropWhile_end_split:
  "s = rev (dropWhile P (rev s)) @ rev (takeWhile P (rev s))"
proof -
  have "rev (takeWhile P (rev s) @ dropWhile P (rev s)) = rev (rev s)"
    by (simp only: takeWhile_dropWhile_id)
  then show ?thesis by (simp only: rev_append rev_rev_ident)
qed

lemma rawFree_trim: "rawFree s \<Longrightarrow> rawFree (trim s)"
proof -
  assume "rawFree s"
  then have d: "rawFree (dropWhile isWhiteSpace s)" by (rule rawFree_dropWhile)
  let ?d = "dropWhile isWhiteSpace s"
  have "?d = trim s @ rev (takeWhile isWhiteSpace (rev ?d))"
    unfolding trim_def by (rule dropWhile_end_split)
  moreover have "\<forall>c\<in>set (rev (takeWhile isWhiteSpace (rev ?d))). isWhiteSpace c"
    by (auto dest: set_takeWhileD)
  ultimately show ?thesis using d rawFree_strip_white by metis
qed

lemma set_trim: "set (trim s) \<subseteq> set s"
proof -
  have "set (trim s) \<subseteq> set (dropWhile isWhiteSpace s)"
    unfolding trim_def using set_dropWhileD [of _ isWhiteSpace "rev (dropWhile isWhiteSpace s)"] by auto
  then show ?thesis using set_dropWhileD [of _ isWhiteSpace s] by auto
qed

lemma trim_idem: "trim (trim s) = trim s"
proof -
  let ?d = "dropWhile isWhiteSpace s"
  let ?t = "trim s"
  have split: "?d = ?t @ rev (takeWhile isWhiteSpace (rev ?d))"
    unfolding trim_def by (rule dropWhile_end_split)
  have front: "dropWhile isWhiteSpace ?t = ?t"
  proof (cases ?t)
    case Nil
    then show ?thesis by simp
  next
    case (Cons a t)
    then have "hd ?d = a" "?d \<noteq> []" using split by (metis hd_append2 list.sel(1) list.distinct(1), metis append_is_Nil_conv list.distinct(1))
    then have "\<not> isWhiteSpace a" using hd_dropWhile [of isWhiteSpace s] by auto
    then show ?thesis using Cons by simp
  qed
  have "dropWhile isWhiteSpace (rev ?t) = rev ?t"
    by (simp add: trim_def)
  then show ?thesis using front by (simp add: trim_def [of "trim s"])
qed

lemma rawFree_sanitizeString: "rawFree (sanitizeString x)"
  by (simp add: sanitizeString_def rawFree_trim rawFree_filter rawFree_escapeXml)

lemma valid_sanitizeString: "filter validXmlChar (sanitizeString x) = sanitizeString x"
proof -
  have "set (sanitizeString x) \<subseteq> set (filter validXmlChar (escapeXml x))"
    unfolding sanitizeString_def by (rule set_trim)
  then show ?thesis by (auto simp: filter_id_conv)
qed

lemma sanitizeString_idem: "sanitizeString (sanitizeString x) = sanitizeString x"
proof -
  have "sanitizeString (sanitizeString x) = trim (filter validXmlChar (sanitizeString x))"
    by (simp add: sanitizeString_def [of "sanitizeString x"] rawFree_escapeXml_id rawFree_sanitizeString)
  also have "\<dots> = trim (sanitizeString x)" by (simp add: valid_sanitizeString)
  also have "\<dots> = sanitizeString x" by (simp add: sanitizeString_def trim_idem)
  finally show ?thesis .
qed

lemma sanitizeXmlText_Str: "sanitizeXmlText (Str x) = Inr (sanitizeString x)"
  by (simp add: sanitizeString_def trim_def)

lemma prefix_entity_amp:
  assumes e: "e \<in> set entities"
  shows "prefix e (u @ 0x26 # w) = prefix e u"
proof
  assume "prefix e (u @ 0x26 # w)"
  then have "prefix e u \<or> (\<exists>us. e = u @ us \<and> prefix us (0x26 # w))"
    by (simp add: prefix_append)
  then show "prefix e u"
  proof
    assume "prefix e u"
    then show ?thesis .
  next
    assume "\<exists>us. e = u @ us \<and> prefix us (0x26 # w)"
    then obtain us where us: "e = u @ us" "prefix us (0x26 # w)" by blast
    show ?thesis
    proof (cases us)
      case Nil
      then show ?thesis using us by simp
    next
      case (Cons a t)
      then have "0x26 \<in> set e" using us by auto
      then show ?thesis using entity_plain [OF e] by (auto simp: isSpecial_def)
    qed
  qed
next
  assume "prefix e u"
  then show "prefix e (u @ 0x26 # w)" by (rule prefix_prefix)
qed

lemma followedByEntity_amp: "followedByEntity (u @ 0x26 # w) = followedByEntity u"
  by (simp add: followedByEntity_iff prefix_entity_amp)

lemma escapeXml_append_amp: "escapeXml (u @ 0x26 # w) = escapeXml u @ escapeXml (0x26 # w)"
  by (induction u) (simp_all add: escapeXml_Cons escapeOne_def followedByEntity_amp)

lemma escapeXml_entity:
  assumes e: "e \<in> set entities"
  shows "escapeXml (u @ 0x26 # e @ v) = escapeXml u @ 0x26 # e @ escapeXml v"
proof -
  have "escapeXml (0x26 # e @ v) = 0x26 # escapeXml (e @ v)"
    by (simp add: escapeXml_Cons escapeOne_def followedByEntity_entity_append [OF e])
  also have "escapeXml (e @ v) = e @ escapeXml v"
    using entity_plain [OF e] by (simp add: escapeXml_plain_append)
  finally show ?thesis by (simp add: escapeXml_append_amp)
qed

lemma sanitizeString_entity:
  assumes e: "e \<in> set entities"
  shows "sanitizeString (u @ 0x26 # e @ v) =
    trim (filter validXmlChar (escapeXml u) @ 0x26 # e @ filter validXmlChar (escapeXml v))"
proof -
  have "filter validXmlChar e = e" using entity_plain [OF e] by (simp add: filter_id_conv)
  then show ?thesis by (simp add: sanitizeString_def escapeXml_entity [OF e] validXmlChar_def)
qed

lemma valid_escapeOne: "validXmlChar c \<Longrightarrow> x \<in> set (escapeOne c cs) \<Longrightarrow> validXmlChar x"
  by (auto simp: escapeOne_def js_def validXmlChar_def split: if_splits)

lemma valid_escapeXml: "\<forall>c\<in>set s. validXmlChar c \<Longrightarrow> \<forall>c\<in>set (escapeXml s). validXmlChar c"
  by (induction s) (auto simp: escapeXml_Cons dest: valid_escapeOne)

lemma sublist_trim: "sublist w (trim s) \<Longrightarrow> sublist w s"
proof -
  let ?d = "dropWhile isWhiteSpace s"
  have "?d = trim s @ rev (takeWhile isWhiteSpace (rev ?d))"
    unfolding trim_def by (rule dropWhile_end_split)
  then have "s = takeWhile isWhiteSpace s @ trim s @ rev (takeWhile isWhiteSpace (rev ?d))"
    by (metis takeWhile_dropWhile_id)
  then have "sublist (trim s) s" unfolding sublist_def by blast
  then show "sublist w (trim s) \<Longrightarrow> sublist w s" by (rule sublist_order.order.trans [rotated])
qed

lemma amp4_plain: "\<forall>c\<in>set (js ''amp;''). \<not> isSpecial c" "\<forall>c\<in>set (js ''amp;amp;''). \<not> isSpecial c"
  by (simp_all add: js_def isSpecial_def)

lemma sublist_doubleAmp_escapeXml: "sublist doubleAmp (escapeXml s) \<Longrightarrow> sublist doubleAmp s"
proof (induction s)
  case Nil
  then show ?case by simp
next
  case (Cons c cs)
  have p4: "prefix (js ''amp;'') (escapeXml cs) = prefix (js ''amp;'') cs"
    and p8: "prefix (js ''amp;amp;'') (escapeXml cs) = prefix (js ''amp;amp;'') cs"
    using amp4_plain by (simp_all add: plain_prefix)
  have fe: "prefix (js ''amp;'') cs \<Longrightarrow> followedByEntity cs"
    by (auto simp: followedByEntity_iff entities_def)
  from Cons.prems have "prefix doubleAmp (c # cs) \<or> sublist doubleAmp (escapeXml cs)"
    using p4 p8 fe
    by (auto simp: escapeXml_Cons escapeOne_def doubleAmp_def js_def sublist_Cons_right split: if_splits)
  then show ?case using Cons.IH by (auto simp: sublist_Cons_right)
qed

lemma no_new_doubleAmp:
  assumes v: "\<forall>c\<in>set x. validXmlChar c" and n: "\<not> sublist doubleAmp x"
  shows "\<not> sublist doubleAmp (sanitizeString x)"
proof
  assume "sublist doubleAmp (sanitizeString x)"
  moreover have "filter validXmlChar (escapeXml x) = escapeXml x"
    using valid_escapeXml [OF v] by (simp add: filter_id_conv)
  ultimately have "sublist doubleAmp (escapeXml x)"
    by (simp add: sanitizeString_def sublist_trim)
  then show False using n sublist_doubleAmp_escapeXml by blast
qed

text \<open>
  Claim C4, as the code has it. The sanitizer is idempotent on every string, so also on
  the strings already free of raw \<open>&\<close>, \<open><\<close>, \<open>>\<close> and quotes. An entity \<open>&amp;\<close>,
  \<open>&lt;\<close>, \<open>&gt;\<close>, \<open>&quot;\<close> or \<open>&apos;\<close> of the input is copied to the output as it
  is, between the sanitized text before and after it. And on an input of valid XML
  characters that does not contain \<open>&amp;amp;\<close>, the output does not contain it either.
\<close>

theorem sanitize_idempotent_entities_kept:
  "sanitizeXmlText (Str x) = Inr (sanitizeString x)
   \<and> sanitizeString (sanitizeString x) = sanitizeString x
   \<and> (e \<in> set entities \<longrightarrow>
        sanitizeString (u @ 0x26 # e @ v) =
          trim (filter validXmlChar (escapeXml u) @ 0x26 # e @ filter validXmlChar (escapeXml v)))
   \<and> ((\<forall>c\<in>set x. validXmlChar c) \<and> \<not> sublist doubleAmp x \<longrightarrow>
        \<not> sublist doubleAmp (sanitizeString x))"
  using sanitizeXmlText_Str sanitizeString_idem sanitizeString_entity no_new_doubleAmp by blast

theorem sanitize_idempotent_entities_kept_witness:
  "js ''amp;'' \<in> set entities
   \<and> list_all validXmlChar (js ''a &amp; <b>'') \<and> \<not> sublist doubleAmp (js ''a &amp; <b>'')
   \<and> sanitizeXmlText (Str (js ''a &amp; <b>'')) = Inr (js ''a &amp; &lt;b&gt;'')
   \<and> sanitizeString (js ''a &amp; &lt;b&gt;'') = js ''a &amp; &lt;b&gt;''
   \<and> \<not> sublist doubleAmp (js ''a &amp; &lt;b&gt;'')"
proof -
  have h1: "js ''amp;'' \<in> set entities" by (simp add: entities_def)
  have h2: "\<forall>c\<in>set (js ''a &amp; <b>''). validXmlChar c" by (simp add: js_def validXmlChar_def)
  have h3: "\<not> sublist doubleAmp (js ''a &amp; <b>'')"
    by (simp add: js_def doubleAmp_def sublist_Cons_right)
  have v: "sanitizeString (js ''a &amp; <b>'') = js ''a &amp; &lt;b&gt;''"
    by (simp add: sanitizeString_def escapeXml_def js_def followedByEntity_def entities_def
      validXmlChar_def trim_def isWhiteSpace_def replaceChar_def)
  show ?thesis
    using sanitize_idempotent_entities_kept [of "js ''a &amp; <b>''" "js ''amp;''" "js ''a ''" "js '' <b>''"]
      h1 h2 h3 v
    by (simp add: list_all_iff del: sanitizeXmlText.simps)
qed

text \<open>
  The claim as the specification words it fails where a character that the sanitizer
  deletes stands between \<open>&amp;\<close> and \<open>amp;\<close>: the input contains \<open>&amp;\<close> and not
  \<open>&amp;amp;\<close>, and the output is \<open>&amp;amp;\<close>.
\<close>

theorem sanitize_double_escape_counterexample:
  "sublist (js ''&amp;'') (js ''&amp;'' @ [0x0B] @ js ''amp;'')
   \<and> \<not> sublist doubleAmp (js ''&amp;'' @ [0x0B] @ js ''amp;'')
   \<and> sanitizeXmlText (Str (js ''&amp;'' @ [0x0B] @ js ''amp;'')) = Inr (js ''&amp;amp;'')"
proof -
  have "sublist (js ''&amp;'') (js ''&amp;'' @ [0x0B] @ js ''amp;'')"
    by (simp add: js_def sublist_Cons_right)
  moreover have "\<not> sublist doubleAmp (js ''&amp;'' @ [0x0B] @ js ''amp;'')"
    by (simp add: js_def doubleAmp_def sublist_Cons_right)
  moreover have "sanitizeXmlText (Str (js ''&amp;'' @ [0x0B] @ js ''amp;'')) = Inr (js ''&amp;amp;'')"
    by (simp add: sanitizeString_def escapeXml_def js_def followedByEntity_def entities_def
      validXmlChar_def trim_def isWhiteSpace_def replaceChar_def)
  ultimately show ?thesis by blast
qed

section \<open>The retry loops\<close>

lemma retryTrace_step: "a < k \<Longrightarrow> retryTrace delay a k = Fetch a # Wait (delay * 2 ^ a) # retryTrace delay (Suc a) k"
  by (simp add: retryTrace_def upt_conv_Cons)

lemma retryTrace_self: "retryTrace delay k k = [Fetch k]"
  by (simp add: retryTrace_def)

lemma safeLoop_success:
  assumes "int k < retries" "rss k = Inr r" "\<forall>j. a \<le> j \<and> j < k \<longrightarrow> isl (rss j)" "a \<le> k"
  shows "safeLoop rss retries delay a = (Inr r, retryTrace delay a k)"
  using assms
proof (induction "k - a" arbitrary: a)
  case 0
  then have "a = k" by simp
  then show ?case using 0 by (simp add: retryTrace_self)
next
  case (Suc n)
  then have lt: "a < k" by simp
  then obtain err where err: "rss a = Inl err" using Suc.prems(3) by (cases "rss a") auto
  have ih: "safeLoop rss retries delay (Suc a) = (Inr r, retryTrace delay (Suc a) k)"
    using Suc.hyps(1) [of "Suc a"] Suc.hyps(2) Suc.prems lt by auto
  have "int a < retries" "int a \<noteq> retries - 1" using lt Suc.prems(1) by auto
  then show ?case using err ih lt
    by (subst safeLoop.simps) (simp add: retryTrace_step)
qed

lemma safeLoop_failure:
  assumes "int k = retries - 1" "rss k = Inl err" "\<forall>j. a \<le> j \<and> j < k \<longrightarrow> isl (rss j)" "a \<le> k"
  shows "safeLoop rss retries delay a = (Inl err, retryTrace delay a k)"
  using assms
proof (induction "k - a" arbitrary: a)
  case 0
  then have "a = k" by simp
  then show ?case using 0 by (simp add: retryTrace_self)
next
  case (Suc n)
  then have lt: "a < k" by simp
  then obtain err' where err: "rss a = Inl err'" using Suc.prems(3) by (cases "rss a") auto
  have ih: "safeLoop rss retries delay (Suc a) = (Inl err, retryTrace delay (Suc a) k)"
    using Suc.hyps(1) [of "Suc a"] Suc.hyps(2) Suc.prems lt by auto
  have "int a < retries" "int a \<noteq> retries - 1" using lt Suc.prems(1) by auto
  then show ?case using err ih lt
    by (subst safeLoop.simps) (simp add: retryTrace_step)
qed

lemma downloadLoop_success:
  assumes "int k < retries" "get k = Inr buf" "\<forall>j. a \<le> j \<and> j < k \<longrightarrow> isl (get j)" "a \<le> k"
  shows "downloadLoop e get fs channel postNumber retries delay a =
     (Inr (Some (storedImage e channel postNumber buf)),
      fs((channel, postNumber) :=
        writeFileSync (fs (channel, postNumber)) (img_filename (storedImage e channel postNumber buf)) buf),
      retryTrace delay a k)"
  using assms
proof (induction "k - a" arbitrary: a)
  case 0
  then have "a = k" by simp
  then show ?case using 0 by (simp add: retryTrace_self Let_def fun_upd_def)
next
  case (Suc n)
  then have lt: "a < k" by simp
  then obtain err where err: "get a = Inl err" using Suc.prems(3) by (cases "get a") auto
  have ih: "downloadLoop e get fs channel postNumber retries delay (Suc a) =
     (Inr (Some (storedImage e channel postNumber buf)),
      fs((channel, postNumber) :=
        writeFileSync (fs (channel, postNumber)) (img_filename (storedImage e channel postNumber buf)) buf),
      retryTrace delay (Suc a) k)"
    using Suc.hyps(1) [of "Suc a"] Suc.hyps(2) Suc.prems lt by auto
  have "int a < retries" "int a \<noteq> retries - 1" using lt Suc.prems(1) by auto
  then show ?case using err ih lt
    by (subst downloadLoop.simps) (simp add: retryTrace_step)
qed

lemma downloadLoop_failure:
  assumes "int k = retries - 1" "get k = Inl err" "\<forall>j. a \<le> j \<and> j < k \<longrightarrow> isl (get j)" "a \<le> k"
  shows "downloadLoop e get fs channel postNumber retries delay a = (Inl err, fs, retryTrace delay a k)"
  using assms
proof (induction "k - a" arbitrary: a)
  case 0
  then have "a = k" by simp
  then show ?case using 0 by (simp add: retryTrace_self)
next
  case (Suc n)
  then have lt: "a < k" by simp
  then obtain err' where err: "get a = Inl err'" using Suc.prems(3) by (cases "get a") auto
  have ih: "downloadLoop e get fs channel postNumber retries delay (Suc a) = (Inl err, fs, retryTrace delay (Suc a) k)"
    using Suc.hyps(1) [of "Suc a"] Suc.hyps(2) Suc.prems lt by auto
  have "int a < retries" "int a \<noteq> retries - 1" using lt Suc.prems(1) by auto
  then show ?case using err ih lt
    by (subst downloadLoop.simps) (simp add: retryTrace_step)
qed

text \<open>
  Claim C7. Both retry loops, in \<open>safeTelegramRss\<close> and in \<open>downloadImage\<close> when no
  file is stored: when attempt \<open>k\<close> is the first to succeed, the loop returns its result
  and makes no further call; before each retry it waits \<open>delay * 2 ^ attempt\<close>; and when
  the last attempt \<open>retries - 1\<close> fails after all the others, its error is thrown.
\<close>

theorem retry_loops:
  "(int k < retries \<and> rss k = Inr r \<and> (\<forall>j<k. isl (rss j)) \<longrightarrow>
      safeTelegramRss rss retries delay = (Inr r, retryTrace delay 0 k))
   \<and> (int k = retries - 1 \<and> rss k = Inl err \<and> (\<forall>j<k. isl (rss j)) \<longrightarrow>
      safeTelegramRss rss retries delay = (Inl err, retryTrace delay 0 k))
   \<and> (fs (channel, postNumber) = [] \<and> int k < retries \<and> get k = Inr buf \<and> (\<forall>j<k. isl (get j)) \<longrightarrow>
      downloadImage e get fs channel postNumber retries delay =
        (Inr (Some (storedImage e channel postNumber buf)),
         fs((channel, postNumber) :=
           writeFileSync [] (img_filename (storedImage e channel postNumber buf)) buf),
         retryTrace delay 0 k))
   \<and> (fs (channel, postNumber) = [] \<and> int k = retries - 1 \<and> get k = Inl err' \<and> (\<forall>j<k. isl (get j)) \<longrightarrow>
      downloadImage e get fs channel postNumber retries delay = (Inl err', fs, retryTrace delay 0 k))"
proof (intro conjI impI)
  assume "int k < retries \<and> rss k = Inr r \<and> (\<forall>j<k. isl (rss j))"
  then show "safeTelegramRss rss retries delay = (Inr r, retryTrace delay 0 k)"
    unfolding safeTelegramRss_def by (intro safeLoop_success) auto
next
  assume "int k = retries - 1 \<and> rss k = Inl err \<and> (\<forall>j<k. isl (rss j))"
  then show "safeTelegramRss rss retries delay = (Inl err, retryTrace delay 0 k)"
    unfolding safeTelegramRss_def by (intro safeLoop_failure) auto
next
  assume a: "fs (channel, postNumber) = [] \<and> int k < retries \<and> get k = Inr buf \<and> (\<forall>j<k. isl (get j))"
  then have "downloadLoop e get fs channel postNumber retries delay 0 =
     (Inr (Some (storedImage e channel postNumber buf)),
      fs((channel, postNumber) :=
        writeFileSync (fs (channel, postNumber)) (img_filename (storedImage e channel postNumber buf)) buf),
      retryTrace delay 0 k)"
    by (intro downloadLoop_success) auto
  then show "downloadImage e get fs channel postNumber retries delay =
        (Inr (Some (storedImage e channel postNumber buf)),
         fs((channel, postNumber) :=
           writeFileSync [] (img_filename (storedImage e channel postNumber buf)) buf),
         retryTrace delay 0 k)"
    using a by (simp add: downloadImage_def del: downloadLoop.simps)
next
  assume a: "fs (channel, postNumber) = [] \<and> int k = retries - 1 \<and> get k = Inl err' \<and> (\<forall>j<k. isl (get j))"
  then have "downloadLoop e get fs channel postNumber retries delay 0 = (Inl err', fs, retryTrace delay 0 k)"
    by (intro downloadLoop_failure) auto
  then show "downloadImage e get fs channel postNumber retries delay = (Inl err', fs, retryTrace delay 0 k)"
    using a by (simp add: downloadImage_def del: downloadLoop.simps)
qed

lemma sample_stored: "storedImage sampleEnv (js ''durov'') (Num 7) samplePng = sampleImage 7"
  by (simp add: storedImage_def sampleEnv_def samplePng_def sampleImage_def
     detectMimeType_def signatures_def getExtFromMime_def extensions_def js_def Let_def)

theorem retry_loops_witness:
  "safeTelegramRss (telegram_rss sampleEnv) 3 2000 = (Inr (Str (js ''<rss/>'')), [Fetch 0, Wait 2000, Fetch 1])
   \<and> safeTelegramRss (\<lambda>k. Inl sampleTimeout) 3 2000 =
       (Inl sampleTimeout, [Fetch 0, Wait 2000, Fetch 1, Wait 4000, Fetch 2])
   \<and> downloadImage sampleEnv sampleRetryGet sampleFiles (js ''durov'') (Num 7) 3 2000 =
       (Inr (Some (sampleImage 7)),
        sampleFiles((js ''durov'', Num 7) := [(js ''image.png'', samplePng)]),
        [Fetch 0, Wait 2000, Fetch 1])
   \<and> downloadImage sampleEnv (\<lambda>k. Inl sampleTimeout) sampleFiles (js ''durov'') (Num 7) 3 2000 =
       (Inl sampleTimeout, sampleFiles, [Fetch 0, Wait 2000, Fetch 1, Wait 4000, Fetch 2])"
proof -
  have t1: "retryTrace 2000 0 (Suc 0) = [Fetch 0, Wait 2000, Fetch (Suc 0)]"
    and t2: "retryTrace 2000 0 2 = [Fetch 0, Wait 2000, Fetch (Suc 0), Wait 4000, Fetch 2]"
    by (simp_all add: retryTrace_def upt_rec)
  have f: "sampleFiles (js ''durov'', Num 7) = []" by (simp add: sampleFiles_def)
  have all1: "\<forall>j<1. isl (telegram_rss sampleEnv j)" "\<forall>j<1. isl (sampleRetryGet j)"
    by (simp_all add: sampleEnv_def sampleRetryGet_def)
  have g: "sampleRetryGet (Suc 0) = Inr samplePng"
    "telegram_rss sampleEnv (Suc 0) = Inr (Str (js ''<rss/>''))"
    by (simp_all add: sampleRetryGet_def sampleEnv_def)
  have w: "img_filename (sampleImage 7) = js ''image.png''" by (simp add: sampleImage_def)
  show ?thesis
    using retry_loops [of 1 3 "telegram_rss sampleEnv" "Str (js ''<rss/>'')" 2000 sampleTimeout
        sampleFiles "js ''durov''" "Num 7" sampleRetryGet samplePng sampleEnv sampleTimeout]
      retry_loops [of 2 3 "\<lambda>k. Inl sampleTimeout" Undefined 2000 sampleTimeout
        sampleFiles "js ''durov''" "Num 7" "\<lambda>k. Inl sampleTimeout" samplePng sampleEnv sampleTimeout]
    by (simp add: t1 t2 f all1 g sample_stored w
        del: safeLoop.simps downloadLoop.simps)
qed

section \<open>Repeated calls of downloadImage\<close>

text \<open>What a run of the download loop that returns metadata leaves behind.\<close>

lemma downloadLoop_Some:
  "downloadLoop e get fs channel postNumber retries delay a = (Inr (Some d), fs', evs) \<Longrightarrow>
   \<exists>buf. d = storedImage e channel postNumber buf
     \<and> fs' = fs((channel, postNumber) := writeFileSync (fs (channel, postNumber)) (img_filename d) buf)"
proof (induction e get fs channel postNumber retries delay a arbitrary: evs
    rule: downloadLoop.induct)
  case (1 e get fs channel postNumber retries delay attempt)
  show ?case
  proof (cases "int attempt < retries")
    case False
    then show ?thesis using "1.prems" by (subst (asm) downloadLoop.simps) simp
  next
    case True
    show ?thesis
    proof (cases "get attempt")
      case (Inr buf)
      then show ?thesis using True "1.prems"
        by (subst (asm) downloadLoop.simps) (auto simp: Let_def)
    next
      case (Inl err)
      show ?thesis
      proof (cases "int attempt = retries - 1")
        case True
        then show ?thesis using Inl \<open>int attempt < retries\<close> "1.prems"
          by (subst (asm) downloadLoop.simps) simp
      next
        case False
        obtain r f v where rec: "downloadLoop e get fs channel postNumber retries delay (attempt + 1) = (r, f, v)"
          by (cases "downloadLoop e get fs channel postNumber retries delay (attempt + 1)") auto
        then have "r = Inr (Some d)" "f = fs'" using Inl False True "1.prems"
          by (subst (asm) (2) downloadLoop.simps, simp)+
        then show ?thesis using "1.IH" [OF True Inl False] rec by simp
      qed
    qed
  qed
qed

lemma downloadImage_again:
  assumes "downloadImage e get fs channel postNumber retries delay = (Inr (Some d), fs', evs)"
  shows "downloadImage e get' fs' channel postNumber retries' delay' = (Inr (Some d), fs', [])"
proof (cases "fs (channel, postNumber)")
  case (Cons f others)
  then show ?thesis using assms by (cases f) (auto simp: downloadImage_def Let_def)
next
  case Nil
  then have "downloadLoop e get fs channel postNumber retries delay 0 = (Inr (Some d), fs', evs)"
    using assms by (simp add: downloadImage_def)
  then obtain buf where d: "d = storedImage e channel postNumber buf"
    and fs': "fs' = fs((channel, postNumber) := writeFileSync (fs (channel, postNumber)) (img_filename d) buf)"
    using downloadLoop_Some by blast
  have "fs' (channel, postNumber) = [(img_filename d, buf)]" using fs' Nil by simp
  then show ?thesis using d by (simp add: downloadImage_def storedImage_def Let_def)
qed

text \<open>
  Claim C3, as the code has it. When a call of \<open>downloadImage\<close> returns metadata, a
  second call for the same channel and post number makes no network call, whatever the
  network would answer, leaves the files as they are and returns the same metadata. The
  first call makes no network call when a file is already stored, and exactly one when
  nothing is stored and its first attempt succeeds.
\<close>

theorem downloadImage_second_call:
  assumes "downloadImage e get fs channel postNumber retries delay = (Inr (Some d), fs', evs)"
  shows "downloadImage e get' fs' channel postNumber retries' delay' = (Inr (Some d), fs', [])
     \<and> (fs (channel, postNumber) \<noteq> [] \<longrightarrow> evs = [] \<and> fs' = fs)
     \<and> (fs (channel, postNumber) = [] \<and> \<not> isl (get 0) \<longrightarrow> evs = [Fetch 0])"
proof -
  have again: "downloadImage e get' fs' channel postNumber retries' delay' = (Inr (Some d), fs', [])"
    using assms by (rule downloadImage_again)
  have stored: "evs = [] \<and> fs' = fs" if "fs (channel, postNumber) \<noteq> []"
    using assms that by (auto simp: downloadImage_def Let_def split: list.splits)
  have fresh: "evs = [Fetch 0]" if a: "fs (channel, postNumber) = [] \<and> \<not> isl (get 0)"
  proof -
    obtain buf where "get 0 = Inr buf" using a by (cases "get 0") auto
    then show ?thesis
      using assms a by (cases "0 < retries") (auto simp: downloadImage_def Let_def)
  qed
  show ?thesis using again stored fresh by blast
qed

theorem downloadImage_second_call_witness:
  "downloadImage sampleEnv (\<lambda>k. Inr samplePng) sampleFiles (js ''durov'') (Num 7) 3 2000 =
     (Inr (Some (sampleImage 7)),
      sampleFiles((js ''durov'', Num 7) := [(js ''image.png'', samplePng)]), [Fetch 0])
   \<and> downloadImage sampleEnv (\<lambda>k. Inl sampleTimeout)
       (sampleFiles((js ''durov'', Num 7) := [(js ''image.png'', samplePng)])) (js ''durov'') (Num 7) 3 2000 =
     (Inr (Some (sampleImage 7)),
      sampleFiles((js ''durov'', Num 7) := [(js ''image.png'', samplePng)]), [])"
proof -
  have f: "sampleFiles (js ''durov'', Num 7) = []" by (simp add: sampleFiles_def)
  have w: "img_filename (sampleImage 7) = js ''image.png''" by (simp add: sampleImage_def)
  have first: "downloadImage sampleEnv (\<lambda>k. Inr samplePng) sampleFiles (js ''durov'') (Num 7) 3 2000 =
     (Inr (Some (sampleImage 7)),
      sampleFiles((js ''durov'', Num 7) := [(js ''image.png'', samplePng)]), [Fetch 0])"
    by (simp add: downloadImage_def f sample_stored w)
  show ?thesis
    using downloadImage_second_call [OF first, of "\<lambda>k. Inl sampleTimeout" 3 2000] first by simp
qed

text \<open>
  The claim as the specification words it, exactly one fetch in two calls, fails: a
  first call whose first attempt fails makes two network calls, and after a first call
  that fails at every attempt nothing is stored, so that the second call fetches again.
\<close>

theorem downloadImage_fetch_count_counterexample:
  "downloadImage sampleEnv sampleRetryGet sampleFiles (js ''durov'') (Num 7) 3 2000 =
     (Inr (Some (sampleImage 7)),
      sampleFiles((js ''durov'', Num 7) := [(js ''image.png'', samplePng)]),
      [Fetch 0, Wait 2000, Fetch 1])
   \<and> downloadImage sampleEnv (\<lambda>k. Inl sampleTimeout) sampleFiles (js ''durov'') (Num 7) 3 2000 =
       (Inl sampleTimeout, sampleFiles, [Fetch 0, Wait 2000, Fetch 1, Wait 4000, Fetch 2])
   \<and> downloadImage sampleEnv (\<lambda>k. Inr samplePng) sampleFiles (js ''durov'') (Num 7) 3 2000 =
       (Inr (Some (sampleImage 7)),
        sampleFiles((js ''durov'', Num 7) := [(js ''image.png'', samplePng)]), [Fetch 0])"
proof -
  have f: "sampleFiles (js ''durov'', Num 7) = []" by (simp add: sampleFiles_def)
  have w: "img_filename (sampleImage 7) = js ''image.png''" by (simp add: sampleImage_def)
  show ?thesis
    by (simp add: downloadImage_def f sample_stored w sampleRetryGet_def)
qed

section \<open>Sorting and mapping the items\<close>

lemma subtractSign_Positive: "(subtractSign a b = Positive) = (\<not> keyLe a b)"
  by (cases a; cases b) auto

lemma keyLe_total: "keyLe a b \<or> keyLe b a"
  by (cases a; cases b) auto

lemma keyLe_trans: "keyLe a b \<Longrightarrow> keyLe b c \<Longrightarrow> keyLe a c"
  by (cases a; cases b; cases c) auto

lemma keyLe_refl: "keyLe a a"
  by (cases a) auto

lemma length_insertItem: "length (insertItem x ys) = Suc (length ys)"
  by (induction ys) auto

lemma length_sortItems: "length (sortItems xs) = length xs"
  by (induction xs) (auto simp: sortItems_def length_insertItem)

lemma set_insertItem: "set (insertItem x ys) = insert x (set ys)"
  by (induction ys) auto

lemma set_sortItems: "set (sortItems xs) = set xs"
  by (induction xs) (auto simp: sortItems_def set_insertItem)

lemma sorted_insertItem:
  "sorted_wrt (\<lambda>a b. keyLe (k_postNumber b) (k_postNumber a)) ys \<Longrightarrow>
   sorted_wrt (\<lambda>a b. keyLe (k_postNumber b) (k_postNumber a)) (insertItem x ys)"
proof (induction ys)
  case Nil
  then show ?case by simp
next
  case (Cons y ys)
  show ?case
  proof (cases "compareItems x y = Positive")
    case True
    then have "keyLe (k_postNumber x) (k_postNumber y)"
      using keyLe_total [of "k_postNumber x" "k_postNumber y"]
      by (simp add: compareItems_def subtractSign_Positive)
    then show ?thesis using True Cons by (auto simp: set_insertItem)
  next
    case False
    then have le: "keyLe (k_postNumber y) (k_postNumber x)"
      by (simp add: compareItems_def subtractSign_Positive)
    then have "\<forall>z\<in>set ys. keyLe (k_postNumber z) (k_postNumber x)"
      using Cons.prems keyLe_trans by auto
    then show ?thesis using False le Cons.prems by simp
  qed
qed

lemma sorted_sortItems:
  "sorted_wrt (\<lambda>a b. keyLe (k_postNumber b) (k_postNumber a)) (sortItems xs)"
  by (induction xs) (auto simp: sortItems_def sorted_insertItem)

lemma filter_insertItem:
  "filter (\<lambda>z. k_postNumber z = k) (insertItem x ys) =
     (if k_postNumber x = k then x # filter (\<lambda>z. k_postNumber z = k) ys
      else filter (\<lambda>z. k_postNumber z = k) ys)"
proof (induction ys)
  case Nil
  then show ?case by simp
next
  case (Cons y ys)
  have "compareItems x y = Positive \<Longrightarrow> k_postNumber y \<noteq> k_postNumber x"
    using keyLe_refl [of "k_postNumber x"] by (auto simp: compareItems_def subtractSign_Positive)
  then show ?case using Cons by auto
qed

lemma filter_sortItems:
  "filter (\<lambda>z. k_postNumber z = k) (sortItems xs) = filter (\<lambda>z. k_postNumber z = k) xs"
proof (induction xs)
  case Nil
  then show ?case by (simp add: sortItems_def)
next
  case (Cons x xs)
  have "sortItems (x # xs) = insertItem x (sortItems xs)" by (simp add: sortItems_def)
  then show ?case using Cons by (simp add: filter_insertItem)
qed

lemma mapItems_nth:
  "mapItems f n its = Inr ys \<Longrightarrow>
   length ys = length its \<and> (\<forall>i<length its. f (n + i) (its ! i) = Inr (ys ! i))"
proof (induction its arbitrary: n ys)
  case Nil
  then show ?case by simp
next
  case (Cons it its)
  from Cons.prems obtain x xs where x: "f n it = Inr x" and xs: "mapItems f (n + 1) its = Inr xs"
    and ys: "ys = x # xs"
    by (auto split: sum.splits)
  have ih: "length xs = length its \<and> (\<forall>i<length its. f (n + 1 + i) (its ! i) = Inr (xs ! i))"
    using Cons.IH [OF xs] .
  show ?case
  proof (intro conjI allI impI)
    show "length ys = length (it # its)" using ih ys by simp
  next
    fix i assume "i < length (it # its)"
    then show "f (n + i) ((it # its) ! i) = Inr (ys ! i)"
      using ih x ys by (cases i) auto
  qed
qed

lemma processItem_key:
  "processItem e fs tc url latest i it = Inr x \<Longrightarrow> k_postNumber x = extractPostNumber (k_link x)"
  by (auto simp: processItem_def Let_def split: sum.splits option.splits)

lemma buildChannel_items:
  assumes "buildChannel e fs tc url parsed = Inr out"
  shows "\<exists>r ch chs its ys. data_rss parsed = Some r \<and> rss_channel r = Some (ch # chs)
      \<and> channel_item ch = Some its
      \<and> mapItems (processItem e fs tc url (utcString e (buildTime e))) 0 its = Inr ys
      \<and> ch_item out = map stripPostNumber (sortItems ys)"
  using assms
  by (auto simp: buildChannel_def Let_def split: option.splits list.splits sum.splits)

lemma stripPostNumber_key: "k_postNumber x = extractPostNumber (k_link x) \<Longrightarrow> outKey (stripPostNumber x) = k_postNumber x"
  by (simp add: outKey_def stripPostNumber_def)

lemma mapItems_keys:
  assumes "mapItems (processItem e fs tc url latest) n its = Inr ys"
  shows "\<forall>y\<in>set ys. k_postNumber y = extractPostNumber (k_link y)"
proof -
  have "\<forall>i<length its. processItem e fs tc url latest (n + i) (its ! i) = Inr (ys ! i)"
    and len: "length ys = length its"
    using mapItems_nth [OF assms] by auto
  then have "\<forall>i<length ys. k_postNumber (ys ! i) = extractPostNumber (k_link (ys ! i))"
    using processItem_key by (metis len)
  then show ?thesis by (metis in_set_conv_nth)
qed

section \<open>The sample run\<close>

lemma sample_safe: "fst (safeTelegramRss (telegram_rss sampleEnv) 3 2000) = Inr (Str (js ''<rss/>''))"
  by (simp add: safeTelegramRss_def sampleEnv_def)

lemma sample_download_fails: "downloadImage sampleEnv (httpsGet sampleEnv 0) sampleFiles (js ''durov'') (Num 10) 3 2000
   = (Inl sampleTimeout, sampleFiles, [Fetch 0, Wait 2000, Fetch 1, Wait 4000, Fetch 2])"
  by (simp add: downloadImage_def sampleEnv_def sampleGet_def sampleFiles_def)

lemma sample_download_png: "fst (downloadImage sampleEnv (httpsGet sampleEnv 2) sampleFiles (js ''durov'') (Num 10) 3 2000)
   = Inr (Some \<lparr>img_path = js ''/app/images/durov/10/image.png'', img_filename = js ''image.png'',
       img_size = 5, img_mimeType = js ''image/png'', img_relativePath = js ''images/durov/10/image.png''\<rparr>)"
  by (simp add: downloadImage_def sampleEnv_def sampleGet_def sampleFiles_def storedImage_def
     samplePng_def detectMimeType_def signatures_def getExtFromMime_def extensions_def js_def Let_def)

lemma sample_items:
  "mapItems (processItem sampleEnv sampleFiles (js ''durov'') (js ''http://serverIP'')
      (js ''Mon, 03 Nov 2025 12:00:00 GMT'')) 0 sampleItems =
   Inr [\<lparr>k_title = js ''[Photo]'', k_description = js ''Tom &amp; Jerry'',
          k_pubDate = js ''Mon, 03 Nov 2025 10:00:00 GMT'',
          k_link = Str (js ''https://t.me/durov/10''), k_guid = Str (js ''https://t.me/durov/10''),
          k_enclosure = [\<lparr>enc_url = Str (js ''https://cdn.example/a.jpg''),
             enc_type = js ''image/jpeg'', enc_length = js ''0''\<rparr>],
          k_postNumber = Num 10\<rparr>,
        \<lparr>k_title = js ''[Photo]'', k_description = js ''B'',
          k_pubDate = js ''Invalid Date'',
          k_link = Str (js ''https://t.me/durov/12''), k_guid = Str (js ''https://t.me/durov/12''),
          k_enclosure = [],
          k_postNumber = Num 12\<rparr>,
        \<lparr>k_title = js ''[Photo]'', k_description = js ''C'',
          k_pubDate = js ''Mon, 03 Nov 2025 12:00:00 GMT'',
          k_link = Str (js ''https://t.me/durov/10''), k_guid = Str (js ''https://t.me/durov/10''),
          k_enclosure = [\<lparr>enc_url = Str (js ''http://serverIP/images/durov/10/image.png''),
             enc_type = js ''image/png'', enc_length = js ''5''\<rparr>],
          k_postNumber = Num 10\<rparr>]"
  by (simp add: sampleItems_def processItem_def itemImageUrl_def itemPubDate_def toUTCString_def
      itemText_def itemEnclosure_def fallbackEnclosure_def sample_download_fails [simplified] sample_download_png [simplified]
      sanitizeString_def escapeXml_def followedByEntity_def entities_def
      validXmlChar_def trim_def isWhiteSpace_def replaceChar_def isDigit_def parseInt_def
      decimalValue_def toNumber_def Let_def js_def sampleEnv_def sampleGet_def sampleFiles_def
      downloadImage_def storedImage_def samplePng_def
     detectMimeType_def signatures_def getExtFromMime_def extensions_def)

lemma sample_channel:
  "buildChannel sampleEnv sampleFiles (js ''durov'') (js ''http://serverIP'') sampleParsed = Inr sampleChannel"
proof -
  have t: "utcString sampleEnv (buildTime sampleEnv) = js ''Mon, 03 Nov 2025 12:00:00 GMT''"
    by (simp add: sampleEnv_def)
  have title: "sanitizeXmlText (Str (js ''Durov'')) = Inr (js ''Durov'')"
    by (simp add: sanitizeString_def escapeXml_def js_def validXmlChar_def trim_def isWhiteSpace_def
        replaceChar_def)
  have nonempty: "js ''Durov'' \<noteq> []" by (simp add: js_def)
  have l: "js ''https://t.me/'' @ js ''durov'' = js ''https://t.me/durov''" by (simp add: js_def)
  show ?thesis
    unfolding buildChannel_def sampleParsed_def
    by (simp add: t title nonempty l sample_items Let_def sortItems_def compareItems_def
        stripPostNumber_def sampleChannel_def del: sanitizeXmlText.simps)
qed

lemma downloadLoop_env:
  "storedImage e' = storedImage e \<Longrightarrow>
   downloadLoop e' get fs c p r d a = downloadLoop e get fs c p r d a"
proof (induction e get fs c p r d a rule: downloadLoop.induct)
  case (1 e get fs channel postNumber retries delay attempt)
  show ?case
  proof (cases "int attempt < retries")
    case False
    then show ?thesis by simp
  next
    case True
    show ?thesis
    proof (cases "get attempt")
      case (Inr buf)
      then show ?thesis using True "1.prems" by simp
    next
      case (Inl err)
      show ?thesis
      proof (cases "int attempt = retries - 1")
        case True
        then show ?thesis using Inl by simp
      next
        case False
        have "downloadLoop e' get fs channel postNumber retries delay (attempt + 1) =
              downloadLoop e get fs channel postNumber retries delay (attempt + 1)"
          using "1.IH" [OF True Inl False "1.prems"] .
        then show ?thesis using True Inl False
          by (subst downloadLoop.simps, subst (2) downloadLoop.simps) simp
      qed
    qed
  qed
qed

lemma buildChannel_buildObject:
  "buildChannel (e\<lparr>buildObject := b\<rparr>) fs tc url parsed = buildChannel e fs tc url parsed"
proof -
  have "storedImage (e\<lparr>buildObject := b\<rparr>) = storedImage e"
    by (intro ext) (simp add: storedImage_def)
  then have "downloadLoop (e\<lparr>buildObject := b\<rparr>) get fs tc p r d 0 = downloadLoop e get fs tc p r d 0"
    for get p r d
    by (rule downloadLoop_env)
  then have "downloadImage (e\<lparr>buildObject := b\<rparr>) get fs tc p r d = downloadImage e get fs tc p r d"
    for get p r d
    by (simp add: downloadImage_def split: list.splits del: downloadLoop.simps)
  then have enc: "itemEnclosure (e\<lparr>buildObject := b\<rparr>) fs tc url i u p = itemEnclosure e fs tc url i u p"
    for i u p
    by (simp add: itemEnclosure_def split: sum.splits option.splits)
  have "toUTCString (e\<lparr>buildObject := b\<rparr>) = toUTCString e"
    by (intro ext) (simp add: toUTCString_def split: option.splits)
  then have date: "itemPubDate (e\<lparr>buildObject := b\<rparr>) latest it = itemPubDate e latest it" for latest it
    by (simp add: itemPubDate_def split: option.splits)
  have "processItem (e\<lparr>buildObject := b\<rparr>) fs tc url latest = processItem e fs tc url latest"
    for latest
    by (intro ext) (simp add: processItem_def enc date Let_def split: sum.splits option.splits)
  then show ?thesis
    by (simp add: buildChannel_def Let_def split: sum.splits option.splits list.splits)
qed

lemma sample_feed:
  "processRssFeed sampleEnv sampleFiles sampleCache (js ''durov'') (js ''http://serverIP'') =
     (Inr (js ''<rss>BTom &amp; JerryC</rss>''),
      sampleCache(js ''durov'' \<mapsto>
        \<lparr>cache_xml = js ''<rss>BTom &amp; JerryC</rss>'', cache_lastUpdate = 1762171200250\<rparr>))"
proof -
  have p: "parseStringPromise sampleEnv s = Inr sampleParsed" for s by (simp add: sampleEnv_def)
  have b: "buildObject sampleEnv sampleChannel = Inr (js ''<rss>BTom &amp; JerryC</rss>'')"
    by (simp add: sampleEnv_def sampleChannel_def js_def)
  have u: "updateTime sampleEnv = 1762171200250" by (simp add: sampleEnv_def)
  show ?thesis
    by (simp add: processRssFeed_def sample_safe p sample_channel b u)
qed

lemma sample_feed_builder_fails:
  "processRssFeed (sampleEnv\<lparr>buildObject := \<lambda>c. Inl sampleTimeout\<rparr>) sampleFiles sampleCache
      (js ''durov'') (js ''http://serverIP'') = (Inl sampleTimeout, sampleCache)"
proof -
  let ?e = "sampleEnv\<lparr>buildObject := \<lambda>c. Inl sampleTimeout\<rparr>"
  have p: "parseStringPromise sampleEnv s = Inr sampleParsed" for s by (simp add: sampleEnv_def)
  show ?thesis
    by (simp add: processRssFeed_def sample_safe p buildChannel_buildObject sample_channel)
qed

section \<open>Properties of processRssFeed\<close>

lemma itemPubDate_invalid:
  "item_pubDate it = Some (d # ds) \<Longrightarrow> truthy d \<Longrightarrow> dateParse e d = None \<Longrightarrow>
   itemPubDate e latestPubDate it = js ''Invalid Date''"
  by (simp add: itemPubDate_def toUTCString_def)

text \<open>
  Claim C1 does not hold of the code: for a publish date that is not empty and cannot
  be parsed, \<open>new Date(...).toUTCString()\<close> is the string \<open>Invalid Date\<close>, and that
  string becomes the \<open>pubDate\<close> of the entry. In the sample run the build timestamp is
  12:00:00, and the entry of post 12, whose date is \<open>not a date\<close>, comes first in the
  output with the \<open>pubDate\<close> \<open>Invalid Date\<close>; the document itself is built.
\<close>

theorem unparseable_pubDate_sample:
  "map_sum id (\<lambda>out. (ch_lastBuildDate out, map out_link (ch_item out), map out_pubDate (ch_item out)))
     (buildChannel sampleEnv sampleFiles (js ''durov'') (js ''http://serverIP'') sampleParsed) =
   Inr (js ''Mon, 03 Nov 2025 12:00:00 GMT'',
        [Str (js ''https://t.me/durov/12''), Str (js ''https://t.me/durov/10''),
         Str (js ''https://t.me/durov/10'')],
        [js ''Invalid Date'', js ''Mon, 03 Nov 2025 10:00:00 GMT'',
         js ''Mon, 03 Nov 2025 12:00:00 GMT''])"
  by (simp add: sample_channel sampleChannel_def)

text \<open>
  Claim C2. When the channel object is built from a document with the items \<open>its\<close>, it
  has as many entries as \<open>its\<close>, in descending order of the ordering key; and for every
  key, the entries with that key stand in the order of the items they come from (\<open>ys\<close>
  is the list of the entries in the order of the input).
\<close>

theorem buildChannel_sorted_stable:
  assumes "buildChannel e fs tc url parsed = Inr out"
  shows "\<exists>r ch chs its ys.
      data_rss parsed = Some r \<and> rss_channel r = Some (ch # chs) \<and> channel_item ch = Some its
      \<and> length (ch_item out) = length its
      \<and> sorted_wrt (\<lambda>a b. keyLe (outKey b) (outKey a)) (ch_item out)
      \<and> length ys = length its
      \<and> (\<forall>i<length its.
            map_sum id stripPostNumber
              (processItem e fs tc url (utcString e (buildTime e)) i (its ! i)) = Inr (ys ! i))
      \<and> (\<forall>k. filter (\<lambda>x. outKey x = k) (ch_item out) = filter (\<lambda>x. outKey x = k) ys)"
proof -
  let ?latest = "utcString e (buildTime e)"
  obtain r ch chs its zs where p: "data_rss parsed = Some r" "rss_channel r = Some (ch # chs)"
    "channel_item ch = Some its"
    and zs: "mapItems (processItem e fs tc url ?latest) 0 its = Inr zs"
    and out: "ch_item out = map stripPostNumber (sortItems zs)"
    using buildChannel_items [OF assms] by blast
  have len: "length zs = length its"
    and nth: "\<forall>i<length its. processItem e fs tc url ?latest i (its ! i) = Inr (zs ! i)"
    using mapItems_nth [OF zs] by auto
  have keys: "\<forall>y\<in>set zs. outKey (stripPostNumber y) = k_postNumber y"
    using mapItems_keys [OF zs] stripPostNumber_key by blast
  then have keys': "\<forall>y\<in>set (sortItems zs). outKey (stripPostNumber y) = k_postNumber y"
    by (simp add: set_sortItems)
  have 1: "length (ch_item out) = length its"
    by (simp add: out length_sortItems len)
  have "sorted_wrt (\<lambda>a b. keyLe (outKey (stripPostNumber b)) (outKey (stripPostNumber a))) (sortItems zs)"
  proof (rule sorted_wrt_mono_rel [OF _ sorted_sortItems [of zs]])
    fix x y
    assume "x \<in> set (sortItems zs)" "y \<in> set (sortItems zs)"
      "keyLe (k_postNumber y) (k_postNumber x)"
    then show "keyLe (outKey (stripPostNumber y)) (outKey (stripPostNumber x))"
      using keys' by simp
  qed
  then have 2: "sorted_wrt (\<lambda>a b. keyLe (outKey b) (outKey a)) (ch_item out)"
    by (simp add: out sorted_wrt_map)
  have 3: "\<forall>i<length its. map_sum id stripPostNumber
              (processItem e fs tc url ?latest i (its ! i)) = Inr (map stripPostNumber zs ! i)"
    using nth len by simp
  have 4: "filter (\<lambda>x. outKey x = k) (ch_item out) = filter (\<lambda>x. outKey x = k) (map stripPostNumber zs)" for k
  proof -
    have "filter (\<lambda>x. outKey x = k) (ch_item out) =
        map stripPostNumber (filter (\<lambda>y. outKey (stripPostNumber y) = k) (sortItems zs))"
      by (simp add: out filter_map comp_def)
    also have "filter (\<lambda>y. outKey (stripPostNumber y) = k) (sortItems zs) =
        filter (\<lambda>y. k_postNumber y = k) (sortItems zs)"
      using keys' by (intro filter_cong) auto
    also have "\<dots> = filter (\<lambda>y. k_postNumber y = k) zs" by (rule filter_sortItems)
    also have "\<dots> = filter (\<lambda>y. outKey (stripPostNumber y) = k) zs"
      using keys by (intro filter_cong) auto
    finally show ?thesis by (simp add: filter_map comp_def)
  qed
  show ?thesis
    using p 1 2 3 4 len
    by (intro exI [of _ r] exI [of _ ch] exI [of _ chs] exI [of _ its]
        exI [of _ "map stripPostNumber zs"]) simp
qed

theorem buildChannel_sorted_stable_witness:
  "buildChannel sampleEnv sampleFiles (js ''durov'') (js ''http://serverIP'') sampleParsed = Inr sampleChannel
   \<and> length (ch_item sampleChannel) = 3
   \<and> sorted_wrt (\<lambda>a b. keyLe (outKey b) (outKey a)) (ch_item sampleChannel)
   \<and> map outKey (ch_item sampleChannel) = [Num 12, Num 10, Num 10]
   \<and> map out_description (ch_item sampleChannel) = [js ''B'', js ''Tom &amp; Jerry'', js ''C'']"
proof -
  have "map outKey (ch_item sampleChannel) = [Num 12, Num 10, Num 10]"
    by (simp add: sampleChannel_def outKey_def js_def isDigit_def parseInt_def decimalValue_def
        toNumber_def)
  moreover have "length (ch_item sampleChannel) = 3
    \<and> map out_description (ch_item sampleChannel) = [js ''B'', js ''Tom &amp; Jerry'', js ''C'']"
    by (simp add: sampleChannel_def)
  ultimately show ?thesis
    using buildChannel_sorted_stable [OF sample_channel] sample_channel by auto
qed

text \<open>
  Claim C5. A call of \<open>processRssFeed\<close> that throws, at whatever step, leaves the cache
  as it was. A call that returns has fetched, parsed and built the whole channel object
  and serialized it, and the cache differs from the one before only in the entry of
  this channel, which holds that serialized document and the time of the update.
\<close>

theorem processRssFeed_cache_atomic:
  assumes "processRssFeed e fs rssCache tc url = (r, rssCache')"
  shows "case r of
           Inl err \<Rightarrow> rssCache' = rssCache
         | Inr newXml \<Rightarrow>
             (\<exists>result parsed ch.
                fst (safeTelegramRss (telegram_rss e) 3 2000) = Inr (Str result)
                \<and> parseStringPromise e (preSanitize result) = Inr parsed
                \<and> buildChannel e fs tc url parsed = Inr ch
                \<and> buildObject e ch = Inr newXml)
             \<and> rssCache' = rssCache(tc \<mapsto> \<lparr>cache_xml = newXml, cache_lastUpdate = updateTime e\<rparr>)"
  using assms
  by (auto simp: processRssFeed_def split: sum.splits jsval.splits)

theorem processRssFeed_cache_atomic_witness:
  "processRssFeed (sampleEnv\<lparr>buildObject := \<lambda>c. Inl sampleTimeout\<rparr>) sampleFiles sampleCache
      (js ''durov'') (js ''http://serverIP'') = (Inl sampleTimeout, sampleCache)
   \<and> processRssFeed sampleEnv sampleFiles sampleCache (js ''durov'') (js ''http://serverIP'') =
     (Inr (js ''<rss>BTom &amp; JerryC</rss>''),
      sampleCache(js ''durov'' \<mapsto>
        \<lparr>cache_xml = js ''<rss>BTom &amp; JerryC</rss>'', cache_lastUpdate = 1762171200250\<rparr>))"
  using processRssFeed_cache_atomic [OF sample_feed_builder_fails]
    processRssFeed_cache_atomic [OF sample_feed]
    sample_feed_builder_fails sample_feed
  by simp

lemma downloadImage_all_fail:
  assumes "fs (tc, p) = []" "\<forall>k<3. isl (get k)"
  shows "\<exists>err. fst (downloadImage e get fs tc p 3 2000) = Inl err"
proof -
  have "isl (get 2)" using assms(2) by simp
  then obtain err where "get 2 = Inl err" by (cases "get 2") auto
  moreover have "\<forall>j. 0 \<le> j \<and> j < 2 \<longrightarrow> isl (get j)" using assms(2) by auto
  ultimately have "downloadLoop e get fs tc p 3 2000 0 = (Inl err, fs, retryTrace 2000 0 2)"
    by (intro downloadLoop_failure) auto
  then show ?thesis using assms(1) by (simp add: downloadImage_def del: downloadLoop.simps)
qed

lemma itemEnclosure_fallback:
  assumes "truthy imageUrl" "fs (tc, p) = []" "\<forall>k<3. isl (httpsGet e i k)"
  shows "itemEnclosure e fs tc url i imageUrl p = [fallbackEnclosure imageUrl]"
  using downloadImage_all_fail [of fs tc p "httpsGet e i" e] assms
  by (auto simp: itemEnclosure_def)

text \<open>
  Claim C6. Let an item carry an image URL, with no file stored for its post number and
  all three attempts of the download failing. Then the callback does not throw because
  of it: with a link and a text that can be sanitized it returns the entry, whose
  enclosure is the original URL with the type \<open>image/jpeg\<close> and the length \<open>0\<close>. And every
  channel object built from a document that holds the item contains an entry with the
  link of the item and that enclosure.
\<close>

theorem failed_download_fallback:
  assumes "itemImageUrl it = Inr imageUrl" and "truthy imageUrl"
    and "item_link it = Some ls"
    and "fs (tc, extractPostNumber (at0 ls)) = []"
    and "\<forall>k<3. isl (httpsGet e i k)"
  shows "(\<forall>t d. itemText it = Inr t \<and> sanitizeXmlText t = Inr d \<longrightarrow>
            processItem e fs tc url latest i it =
              Inr \<lparr>k_title = js ''[Photo]'', k_description = d,
                   k_pubDate = itemPubDate e latest it,
                   k_link = at0 ls, k_guid = at0 ls,
                   k_enclosure = [fallbackEnclosure imageUrl],
                   k_postNumber = extractPostNumber (at0 ls)\<rparr>)
     \<and> (\<forall>parsed out r ch chs its.
            buildChannel e fs tc url parsed = Inr out \<and> data_rss parsed = Some r
            \<and> rss_channel r = Some (ch # chs) \<and> channel_item ch = Some its
            \<and> i < length its \<and> its ! i = it \<longrightarrow>
            (\<exists>x\<in>set (ch_item out).
               out_link x = at0 ls \<and> out_enclosure x = [fallbackEnclosure imageUrl]))"
proof -
  have enc: "itemEnclosure e fs tc url i imageUrl (extractPostNumber (at0 ls)) =
      [fallbackEnclosure imageUrl]"
    using assms(2,4,5) by (rule itemEnclosure_fallback)
  have item: "k_link x = at0 ls \<and> k_enclosure x = [fallbackEnclosure imageUrl]"
    if "processItem e fs tc url l i it = Inr x" for x l
    using that assms(1,3) enc
    by (auto simp: processItem_def Let_def split: sum.splits simp del: sanitizeXmlText.simps)
  have first: "processItem e fs tc url latest i it =
              Inr \<lparr>k_title = js ''[Photo]'', k_description = d,
                   k_pubDate = itemPubDate e latest it,
                   k_link = at0 ls, k_guid = at0 ls,
                   k_enclosure = [fallbackEnclosure imageUrl],
                   k_postNumber = extractPostNumber (at0 ls)\<rparr>"
    if "itemText it = Inr t \<and> sanitizeXmlText t = Inr d" for t d
    using that assms(1,3) enc
    by (simp add: processItem_def Let_def del: sanitizeXmlText.simps)
  have second: "\<exists>x\<in>set (ch_item out). out_link x = at0 ls \<and> out_enclosure x = [fallbackEnclosure imageUrl]"
    if a: "buildChannel e fs tc url parsed = Inr out \<and> data_rss parsed = Some r
            \<and> rss_channel r = Some (ch # chs) \<and> channel_item ch = Some its
            \<and> i < length its \<and> its ! i = it" for parsed out r ch chs its
  proof -
    obtain zs where zs: "mapItems (processItem e fs tc url (utcString e (buildTime e))) 0 its = Inr zs"
      and out: "ch_item out = map stripPostNumber (sortItems zs)"
      using buildChannel_items [of e fs tc url parsed out] a by auto
    have len: "length zs = length its"
      and "processItem e fs tc url (utcString e (buildTime e)) i (its ! i) = Inr (zs ! i)"
      using mapItems_nth [OF zs] a by auto
    then have "k_link (zs ! i) = at0 ls \<and> k_enclosure (zs ! i) = [fallbackEnclosure imageUrl]"
      using item a by simp
    then have "out_link (stripPostNumber (zs ! i)) = at0 ls
        \<and> out_enclosure (stripPostNumber (zs ! i)) = [fallbackEnclosure imageUrl]"
      by (simp add: stripPostNumber_def)
    moreover have "zs ! i \<in> set (sortItems zs)" using len a by (simp add: set_sortItems)
    then have "stripPostNumber (zs ! i) \<in> set (ch_item out)"
      unfolding out by (simp only: set_map) (rule imageI)
    ultimately show ?thesis by blast
  qed
  show ?thesis using first second by blast
qed

theorem failed_download_fallback_witness:
  "itemImageUrl (sampleItems ! 0) = Inr (Str (js ''https://cdn.example/a.jpg''))
   \<and> truthy (Str (js ''https://cdn.example/a.jpg''))
   \<and> item_link (sampleItems ! 0) = Some [Str (js ''https://t.me/durov/10'')]
   \<and> sampleFiles (js ''durov'', extractPostNumber (at0 [Str (js ''https://t.me/durov/10'')])) = []
   \<and> list_all (\<lambda>k. isl (httpsGet sampleEnv 0 k)) [0, 1, 2]
   \<and> buildChannel sampleEnv sampleFiles (js ''durov'') (js ''http://serverIP'') sampleParsed = Inr sampleChannel
   \<and> list_ex (\<lambda>x. out_link x = Str (js ''https://t.me/durov/10'')
         \<and> out_enclosure x =
             [\<lparr>enc_url = Str (js ''https://cdn.example/a.jpg''), enc_type = js ''image/jpeg'',
               enc_length = js ''0''\<rparr>])
       (ch_item sampleChannel)"
proof -
  have h1: "itemImageUrl (sampleItems ! 0) = Inr (Str (js ''https://cdn.example/a.jpg''))"
    by (simp add: sampleItems_def itemImageUrl_def)
  have h2: "truthy (Str (js ''https://cdn.example/a.jpg''))" by (simp add: js_def)
  have h3: "item_link (sampleItems ! 0) = Some [Str (js ''https://t.me/durov/10'')]"
    by (simp add: sampleItems_def)
  have h4: "sampleFiles (js ''durov'', extractPostNumber (at0 [Str (js ''https://t.me/durov/10'')])) = []"
    by (simp add: sampleFiles_def)
  have h5: "\<forall>k<3. isl (httpsGet sampleEnv 0 k)" by (simp add: sampleEnv_def sampleGet_def)
  have p: "data_rss sampleParsed = Some \<lparr>rss_channel =
        Some [\<lparr>channel_title = Some [Str (js ''Durov'')], channel_item = Some sampleItems\<rparr>]\<rparr>"
    by (simp add: sampleParsed_def)
  have l: "0 < length sampleItems" by (simp add: sampleItems_def)
  have "\<exists>x\<in>set (ch_item sampleChannel).
         out_link x = at0 [Str (js ''https://t.me/durov/10'')]
         \<and> out_enclosure x = [fallbackEnclosure (Str (js ''https://cdn.example/a.jpg''))]"
    using failed_download_fallback [where it = "sampleItems ! 0" and fs = sampleFiles
        and tc = "js ''durov''" and e = sampleEnv and i = 0 and url = "js ''http://serverIP''"
        and imageUrl = "Str (js ''https://cdn.example/a.jpg'')"
        and ls = "[Str (js ''https://t.me/durov/10'')]" and latest = "[]"]
      h1 h2 h3 h4 h5 sample_channel p l by fastforce
  then show ?thesis using h1 h2 h3 h4 h5 sample_channel
    by (simp add: list_ex_iff fallbackEnclosure_def)
qed

end
